theory Spec2Isabelle
  imports Main
begin

text \<open>
  A shallow embedding of \<^verbatim>\<open>packages/svelte2tsx/src/helpers/sveltekit.ts\<close>: the ledger of
  inserted code with its two position translations, the augmentor of SvelteKit route,
  hooks and params files, and the transpiler \<^verbatim>\<open>svelte2tsx\<close> as far as it decides which
  edits to make. The definitions come first, in the order of the source; the properties
  follow, one section for each of the three parts.
\<close>

section \<open>The insertion ledger\<close>

text \<open>
  \<^verbatim>\<open>AddedCode\<close> is one record of the ledger. Offsets and lengths are JavaScript numbers that
  only ever hold integers, so they are modelled as \<open>int\<close>; the fields \<^verbatim>\<open>length\<close> and
  \<^verbatim>\<open>total\<close> carry a prime because both names are taken in HOL. A string is a list of
  characters and \<^verbatim>\<open>inserted.length\<close> is the length of that list.
\<close>

record AddedCode =
  generatedPos :: int
  originalPos :: int
  length' :: int
  total' :: int
  inserted :: string

text \<open>\<^verbatim>\<open>Array.prototype.findIndex\<close>: the index of the first element satisfying the
  predicate, \<open>-1\<close> when there is none.\<close>

fun findIndex :: "('a \<Rightarrow> bool) \<Rightarrow> 'a list \<Rightarrow> int" where
  "findIndex P [] = - 1"
| "findIndex P (x # xs) =
     (if P x then 0
      else (let i = findIndex P xs in if i < 0 then - 1 else i + 1))"

text \<open>The body of the loop in \<^verbatim>\<open>insertCode\<close> that moves every record from the insertion
  index onwards.\<close>

definition shift :: "int \<Rightarrow> AddedCode \<Rightarrow> AddedCode" where
  "shift n c = c\<lparr>generatedPos := generatedPos c + n, total' := total' c + n\<rparr>"

text \<open>\<^verbatim>\<open>insertCode\<close> mutates the array in place; the model returns the new array.
  \<^verbatim>\<open>addedCode[insertionIdx - 1]?.total ?? 0\<close> is \<open>0\<close> exactly when the index is \<open>-1\<close>, that
  is when \<open>insertionIdx = 0\<close>. The source has no \<^verbatim>\<open>throw\<close> on this path, so there is no
  error result.\<close>

definition insertCode :: "AddedCode list \<Rightarrow> int \<Rightarrow> string \<Rightarrow> AddedCode list" where
  "insertCode addedCode pos ins =
     (let insertionIdx = findIndex (\<lambda>c. originalPos c > pos) addedCode;
          n = int (length ins)
      in if insertionIdx \<ge> 0 then
           (let k = nat insertionIdx;
                shifted = take k addedCode @ map (shift n) (drop k addedCode);
                prevTotal = (if k = 0 then 0 else total' (shifted ! (k - 1)))
            in take k shifted @
               \<lparr>generatedPos = pos + prevTotal, originalPos = pos, length' = n,
                total' = prevTotal + n, inserted = ins\<rparr> # drop k shifted)
         else
           (let prevTotal = (if addedCode = [] then 0 else total' (last addedCode))
            in addedCode @
               [\<lparr>generatedPos = pos + prevTotal, originalPos = pos, length' = n,
                 total' = prevTotal + n, inserted = ins\<rparr>]))"

text \<open>The \<^verbatim>\<open>for\<close> loops of \<^verbatim>\<open>toVirtualPos\<close> and \<^verbatim>\<open>toOriginalPos\<close> with their
  \<^verbatim>\<open>break\<close>; the accumulator \<^verbatim>\<open>total\<close> is called \<open>tot\<close>.\<close>

fun toVirtualPos_loop :: "int \<Rightarrow> AddedCode list \<Rightarrow> int \<Rightarrow> int" where
  "toVirtualPos_loop pos [] tot = tot"
| "toVirtualPos_loop pos (added # rest) tot =
     (if pos < originalPos added then tot
      else toVirtualPos_loop pos rest (tot + length' added))"

definition toVirtualPos :: "int \<Rightarrow> AddedCode list \<Rightarrow> int" where
  "toVirtualPos pos addedCode = pos + toVirtualPos_loop pos addedCode 0"

fun toOriginalPos_loop :: "int \<Rightarrow> AddedCode list \<Rightarrow> int \<Rightarrow> nat \<Rightarrow> int \<times> nat" where
  "toOriginalPos_loop pos [] tot idx = (tot, idx)"
| "toOriginalPos_loop pos (added # rest) tot idx =
     (if pos < generatedPos added then (tot, idx)
      else toOriginalPos_loop pos rest (tot + length' added) (Suc idx))"

text \<open>The result object \<^verbatim>\<open>{ pos, inGenerated }\<close> is the pair \<open>(pos, inGenerated)\<close>. The
  index \<open>idx - 1\<close> is only read when \<open>idx > 0\<close>, and \<open>idx\<close> never exceeds the length.\<close>

definition toOriginalPos :: "int \<Rightarrow> AddedCode list \<Rightarrow> int \<times> bool" where
  "toOriginalPos pos addedCode =
     (case toOriginalPos_loop pos addedCode 0 0 of (tot, idx) \<Rightarrow>
        if idx > 0 \<and> pos > generatedPos (addedCode ! (idx - 1))
             \<and> pos < generatedPos (addedCode ! (idx - 1)) + length' (addedCode ! (idx - 1))
        then (originalPos (addedCode ! (idx - 1)), True)
        else (pos - tot, False))"

text \<open>A ledger is what a sequence of \<^verbatim>\<open>insert(pos, inserted)\<close> calls leaves in an array
  that starts empty, as every \<^verbatim>\<open>upserKit...File\<close> function builds it.\<close>

definition insertCalls :: "(int \<times> string) list \<Rightarrow> AddedCode list" where
  "insertCalls calls = foldl (\<lambda>addedCode (pos, ins). insertCode addedCode pos ins) [] calls"

text \<open>The same calls made on an array that already holds records.\<close>

definition insertMore :: "AddedCode list \<Rightarrow> (int \<times> string) list \<Rightarrow> AddedCode list" where
  "insertMore addedCode calls =
     foldl (\<lambda>addedCode (pos, ins). insertCode addedCode pos ins) addedCode calls"

text \<open>The bookkeeping invariant of the ledger, with the running total \<open>t\<close> of the records
  already passed: each record's \<^verbatim>\<open>length\<close> is the length of its text, its
  \<^verbatim>\<open>generatedPos\<close> is its \<^verbatim>\<open>originalPos\<close> plus the total before it, and its
  \<^verbatim>\<open>total\<close> adds its own length.\<close>

fun consistent_from :: "int \<Rightarrow> AddedCode list \<Rightarrow> bool" where
  "consistent_from t [] = True"
| "consistent_from t (c # cs) =
     (length' c = int (length (inserted c)) \<and> generatedPos c = originalPos c + t
      \<and> total' c = t + length' c \<and> consistent_from (total' c) cs)"


text \<open>The record literal that \<^verbatim>\<open>insertCode\<close> splices in or pushes, and the
  \<^verbatim>\<open>total\<close> of the last record of a prefix (\<open>0\<close> for the empty prefix).\<close>

definition fresh :: "int \<Rightarrow> int \<Rightarrow> string \<Rightarrow> AddedCode" where
  "fresh prevTotal pos ins =
     \<lparr>generatedPos = pos + prevTotal, originalPos = pos, length' = int (length ins),
      total' = prevTotal + int (length ins), inserted = ins\<rparr>"

definition last_total :: "AddedCode list \<Rightarrow> int" where
  "last_total cs = (if cs = [] then 0 else total' (last cs))"


section \<open>The file-kind augmentor\<close>

subsection \<open>JavaScript string operations\<close>

text \<open>
  \<^verbatim>\<open>String.prototype.slice(start, end)\<close>: a negative index counts from the end of the
  string, both indices are clamped to the string, and the result is empty when the end is
  not after the start. \<^verbatim>\<open>slice(0, -0)\<close> is \<^verbatim>\<open>slice(0, 0)\<close>, the empty string, which is
  what the source computes for a basename without an extension.
\<close>

definition str_slice :: "string \<Rightarrow> int \<Rightarrow> int \<Rightarrow> string" where
  "str_slice s start end =
     (let len = int (length s);
          from = (if start < 0 then max (len + start) 0 else min start len);
          to = (if end < 0 then max (len + end) 0 else min end len)
      in take (nat (to - from)) (drop (nat from) s))"

definition str_slice_from :: "string \<Rightarrow> int \<Rightarrow> string" where
  "str_slice_from s start = str_slice s start (int (length s))"

text \<open>\<^verbatim>\<open>endsWith\<close> and \<^verbatim>\<open>includes\<close>; \<^verbatim>\<open>basename.split('@')[0]\<close> is written in place as
  the characters before the first \<^verbatim>\<open>@\<close>.\<close>

definition str_endsWith :: "string \<Rightarrow> string \<Rightarrow> bool" where
  "str_endsWith s t = (length t \<le> length s \<and> drop (length s - length t) s = t)"

fun str_includes :: "string \<Rightarrow> string \<Rightarrow> bool" where
  "str_includes [] t = (t = [])"
| "str_includes (c # cs) t = (take (length t) (c # cs) = t \<or> str_includes cs t)"

subsection \<open>Export descriptors\<close>

text \<open>
  What the augmentor reads of a syntax node, as positions: \<open>parameters\<close> holds
  \<^verbatim>\<open>getEnd()\<close> of each parameter, \<open>has_type\<close> says whether \<^verbatim>\<open>node.type\<close> (the return
  type) is present, \<open>body\<close> is \<^verbatim>\<open>node.body.getStart()\<close> when there is a body, and an arrow
  function carries \<^verbatim>\<open>equalsGreaterThanToken.getStart()\<close>. For a variable declaration
  \<open>name_end\<close> is \<^verbatim>\<open>node.name.getEnd()\<close> and \<open>initializer\<close> is
  \<^verbatim>\<open>node.initializer.getEnd()\<close> when there is an initializer. The boolean of an export is
  its \<^verbatim>\<open>hasTypeDefinition\<close>.
\<close>

datatype function_kind = ArrowFunction int | OtherFunction

record function_node =
  kind :: function_kind
  parameters :: "int list"
  has_type :: bool
  body :: "int option"

record variable_node =
  name_end :: int
  initializer :: "int option"

datatype export = Function function_node bool | Var variable_node bool

text \<open>
  What the augmentor calls but does not define: Node's \<^verbatim>\<open>path.basename\<close> and
  \<^verbatim>\<open>path.extname\<close>, the helper \<^verbatim>\<open>findExports\<close> of \<^verbatim>\<open>./typescript\<close> (its \<^verbatim>\<open>Map\<close> is
  only ever read with \<^verbatim>\<open>get\<close>), and \<^verbatim>\<open>source.getFullText()\<close>. They are parameters of
  the model; \<open>'src\<close> is the type of a parsed source file.
\<close>

record 'src externals =
  path_basename :: "string \<Rightarrow> string"
  path_extname :: "string \<Rightarrow> string"
  findExports :: "'src \<Rightarrow> bool \<Rightarrow> (string \<rightharpoonup> export)"
  getFullText :: "'src \<Rightarrow> string"

record KitFilesSettings =
  serverHooksPath :: string
  clientHooksPath :: string
  paramsPath :: string

subsection \<open>Classification\<close>

definition kitPageFiles :: "string list" where
  "kitPageFiles = [''+page'', ''+layout'', ''+page.server'', ''+layout.server'', ''+server'']"

definition isKitRouteFile :: "'src externals \<Rightarrow> string \<Rightarrow> bool" where
  "isKitRouteFile ext basename =
     (let basename' =
        (if str_includes basename ''@'' then takeWhile (\<lambda>c. c \<noteq> CHR ''@'') basename
         else str_slice basename 0 (- int (length (path_extname ext basename))))
      in basename' \<in> set kitPageFiles)"

definition isServerHooksFile :: "'src externals \<Rightarrow> string \<Rightarrow> string \<Rightarrow> string \<Rightarrow> bool" where
  "isServerHooksFile ext fileName basename hooksPath =
     (((basename = ''index.ts'' \<or> basename = ''index.js'')
        \<and> str_endsWith (str_slice fileName 0 (- int (length basename) - 1)) hooksPath)
      \<or> str_endsWith (str_slice fileName 0 (- int (length (path_extname ext basename)))) hooksPath)"

definition isClientHooksFile :: "'src externals \<Rightarrow> string \<Rightarrow> string \<Rightarrow> string \<Rightarrow> bool" where
  "isClientHooksFile ext fileName basename hooksPath =
     (((basename = ''index.ts'' \<or> basename = ''index.js'')
        \<and> str_endsWith (str_slice fileName 0 (- int (length basename) - 1)) hooksPath)
      \<or> str_endsWith (str_slice fileName 0 (- int (length (path_extname ext basename)))) hooksPath)"

definition isParamsFile :: "string \<Rightarrow> string \<Rightarrow> string \<Rightarrow> bool" where
  "isParamsFile fileName basename paramsDir =
     (str_endsWith (str_slice fileName 0 (- int (length basename) - 1)) paramsDir
      \<and> \<not> str_includes basename ''.test''
      \<and> \<not> str_includes basename ''.spec'')"

definition isKitFile :: "'src externals \<Rightarrow> string \<Rightarrow> KitFilesSettings \<Rightarrow> bool" where
  "isKitFile ext fileName options =
     (let basename = path_basename ext fileName
      in isKitRouteFile ext basename
         \<or> isServerHooksFile ext fileName basename (serverHooksPath options)
         \<or> isClientHooksFile ext fileName basename (clientHooksPath options)
         \<or> isParamsFile fileName basename (paramsPath options))"

subsection \<open>Annotating exports\<close>

text \<open>\<^verbatim>\<open>!returnType\<close> holds for a missing argument and for the empty string.\<close>

definition falsy :: "string option \<Rightarrow> bool" where
  "falsy returnType = (case returnType of None \<Rightarrow> True | Some t \<Rightarrow> t = [])"

text \<open>
  The closure \<^verbatim>\<open>insert\<close> appends to the array \<^verbatim>\<open>addedCode\<close> of the enclosing function; the
  model passes the array in and returns the new one.
\<close>

definition addTypeToVariable ::
  "(string \<rightharpoonup> export) \<Rightarrow> (string \<Rightarrow> string) \<Rightarrow> AddedCode list \<Rightarrow> string \<Rightarrow> string
     \<Rightarrow> AddedCode list" where
  "addTypeToVariable exports surround addedCode name type =
     (case exports name of
        Some (Var node hasTypeDefinition) \<Rightarrow>
          (if \<not> hasTypeDefinition \<and> initializer node \<noteq> None
           then insertCode addedCode (name_end node) (surround ('' : '' @ type))
           else addedCode)
      | _ \<Rightarrow> addedCode)"

definition addTypeToFunction ::
  "(string \<rightharpoonup> export) \<Rightarrow> (string \<Rightarrow> string) \<Rightarrow> AddedCode list \<Rightarrow> string \<Rightarrow> string \<Rightarrow> string option
     \<Rightarrow> AddedCode list" where
  "addTypeToFunction exports surround addedCode name type returnType =
     (case exports name of
        Some (Function node hasTypeDefinition) \<Rightarrow>
          (if length (parameters node) = 1 \<and> \<not> hasTypeDefinition then
             (let paramPos = parameters node ! 0;
                  paramInsertion = surround
                    (if falsy returnType then '': Parameters<'' @ type @ ''>[0]'' else '': '' @ type);
                  addedCode1 = insertCode addedCode paramPos paramInsertion
              in case body node of
                   Some bodyStart \<Rightarrow>
                     (if \<not> has_type node then
                        (let returnPos = (case kind node of ArrowFunction arrowStart \<Rightarrow> arrowStart
                                          | OtherFunction \<Rightarrow> bodyStart);
                             returnInsertion = surround
                               (case returnType of
                                  None \<Rightarrow> '': ReturnType<'' @ type @ ''> ''
                                | Some t \<Rightarrow> if t = [] then '': ReturnType<'' @ type @ ''> ''
                                            else '': '' @ t @ '' '')
                         in insertCode addedCode1 returnPos returnInsertion)
                      else addedCode1)
                 | None \<Rightarrow> addedCode1)
           else addedCode)
      | _ \<Rightarrow> addedCode)"

subsection \<open>The four strategies\<close>

text \<open>
  \<^verbatim>\<open>getSource\<close> is a callback without arguments. As a HOL function it answers the same
  each time it is called. A strategy returns \<^verbatim>\<open>undefined\<close> (\<open>None\<close>) when its pattern does
  not match or when there is no source, and otherwise the ledger with the original text.
\<close>

definition upserKitRouteFile ::
  "'src externals \<Rightarrow> string \<Rightarrow> (unit \<Rightarrow> 'src option) \<Rightarrow> (string \<Rightarrow> string)
     \<Rightarrow> (AddedCode list \<times> string) option" where
  "upserKitRouteFile ext basename getSource surround =
     (if \<not> isKitRouteFile ext basename then None
      else case getSource () of
        None \<Rightarrow> None
      | Some source \<Rightarrow>
          (let isTsFile = str_endsWith basename ''.ts'';
               exports = findExports ext source isTsFile;
               addedCode0 = [];
               addedCode1 =
                 (case exports ''load'' of
                    Some (Function node hasTypeDefinition) \<Rightarrow>
                      (if length (parameters node) = 1 \<and> \<not> hasTypeDefinition
                       then insertCode addedCode0 (parameters node ! 0)
                              (surround ('': import('./$types.js').''
                                 @ (if str_includes basename ''layout'' then ''Layout'' else ''Page'')
                                 @ (if str_includes basename ''server'' then ''Server'' else [])
                                 @ ''LoadEvent''))
                       else addedCode0)
                  | _ \<Rightarrow> addedCode0);
               addedCode2 =
                 (case exports ''actions'' of
                    Some (Var node hasTypeDefinition) \<Rightarrow>
                      (case initializer node of
                         Some initializerEnd \<Rightarrow>
                           (if \<not> hasTypeDefinition
                            then insertCode addedCode1 initializerEnd
                                   (surround '' satisfies import('./$types.js').Actions'')
                            else addedCode1)
                       | None \<Rightarrow> addedCode1)
                  | _ \<Rightarrow> addedCode1);
               addedCode3 = addTypeToVariable exports surround addedCode2 ''prerender''
                              (''boolean | '' @ [CHR 0x27] @ ''auto'' @ [CHR 0x27]);
               addedCode4 = addTypeToVariable exports surround addedCode3 ''trailingSlash''
                              ([CHR 0x27] @ ''never'' @ [CHR 0x27] @ '' | '' @ [CHR 0x27] @ ''always''
                                 @ [CHR 0x27] @ '' | '' @ [CHR 0x27] @ ''ignore'' @ [CHR 0x27]);
               addedCode5 = addTypeToVariable exports surround addedCode4 ''ssr'' ''boolean'';
               addedCode6 = addTypeToVariable exports surround addedCode5 ''csr'' ''boolean'';
               insertApiMethod = (\<lambda>addedCode name.
                 addTypeToFunction exports surround addedCode name
                   ''import('./$types.js').RequestEvent'' (Some ''Response | Promise<Response>''));
               addedCode7 = foldl insertApiMethod addedCode6
                              [''GET'', ''PUT'', ''POST'', ''PATCH'', ''DELETE'', ''OPTIONS'']
           in Some (addedCode7, getFullText ext source)))"

definition upserKitParamsFile ::
  "'src externals \<Rightarrow> string \<Rightarrow> string \<Rightarrow> string \<Rightarrow> (unit \<Rightarrow> 'src option) \<Rightarrow> (string \<Rightarrow> string)
     \<Rightarrow> (AddedCode list \<times> string) option" where
  "upserKitParamsFile ext fileName basename paramsDir getSource surround =
     (if \<not> isParamsFile fileName basename paramsDir then None
      else case getSource () of
        None \<Rightarrow> None
      | Some source \<Rightarrow>
          (let isTsFile = str_endsWith basename ''.ts'';
               exports = findExports ext source isTsFile;
               addedCode = addTypeToFunction exports surround [] ''match'' ''string'' (Some ''boolean'')
           in Some (addedCode, getFullText ext source)))"

definition upserKitClientHooksFile ::
  "'src externals \<Rightarrow> string \<Rightarrow> string \<Rightarrow> string \<Rightarrow> (unit \<Rightarrow> 'src option) \<Rightarrow> (string \<Rightarrow> string)
     \<Rightarrow> (AddedCode list \<times> string) option" where
  "upserKitClientHooksFile ext fileName basename hooksPath getSource surround =
     (if \<not> isClientHooksFile ext fileName basename hooksPath then None
      else case getSource () of
        None \<Rightarrow> None
      | Some source \<Rightarrow>
          (let isTsFile = str_endsWith basename ''.ts'';
               exports = findExports ext source isTsFile;
               addedCode = addTypeToFunction exports surround [] ''handleError''
                             ''import('@sveltejs/kit').HandleClientError'' None
           in Some (addedCode, getFullText ext source)))"

definition upserKitServerHooksFile ::
  "'src externals \<Rightarrow> string \<Rightarrow> string \<Rightarrow> string \<Rightarrow> (unit \<Rightarrow> 'src option) \<Rightarrow> (string \<Rightarrow> string)
     \<Rightarrow> (AddedCode list \<times> string) option" where
  "upserKitServerHooksFile ext fileName basename hooksPath getSource surround =
     (if \<not> isServerHooksFile ext fileName basename hooksPath then None
      else case getSource () of
        None \<Rightarrow> None
      | Some source \<Rightarrow>
          (let isTsFile = str_endsWith basename ''.ts'';
               exports = findExports ext source isTsFile;
               addType = (\<lambda>addedCode (name, type).
                 addTypeToFunction exports surround addedCode name type None);
               addedCode = foldl addType []
                 [(''handleError'', ''import('@sveltejs/kit').HandleServerError''),
                  (''handle'', ''import('@sveltejs/kit').Handle''),
                  (''handleFetch'', ''import('@sveltejs/kit').HandleFetch'')]
           in Some (addedCode, getFullText ext source)))"

subsection \<open>Assembling the generated text\<close>

text \<open>The loop of \<^verbatim>\<open>upsertKitFile\<close> over the ledger, with its variables \<^verbatim>\<open>pos\<close> and
  \<^verbatim>\<open>text\<close>, followed by \<^verbatim>\<open>text += originalText.slice(pos)\<close>.\<close>

fun upsertKitFile_loop :: "string \<Rightarrow> AddedCode list \<Rightarrow> int \<Rightarrow> string \<Rightarrow> string" where
  "upsertKitFile_loop originalText [] pos text = text @ str_slice_from originalText pos"
| "upsertKitFile_loop originalText (added # rest) pos text =
     upsertKitFile_loop originalText rest (originalPos added)
       (text @ str_slice originalText pos (originalPos added) @ inserted added)"

text \<open>\<^verbatim>\<open>a ?? b\<close> on results that are an object or \<^verbatim>\<open>undefined\<close>, and the part of
  \<^verbatim>\<open>upsertKitFile\<close> after the strategies: \<^verbatim>\<open>undefined\<close> when no strategy gave a result,
  otherwise \<^verbatim>\<open>{ text, addedCode }\<close> as the pair \<open>(text, addedCode)\<close>.\<close>

definition orElse :: "'a option \<Rightarrow> 'a option \<Rightarrow> 'a option" where
  "orElse a b = (case a of Some r \<Rightarrow> Some r | None \<Rightarrow> b)"

definition generate :: "(AddedCode list \<times> string) option \<Rightarrow> (string \<times> AddedCode list) option" where
  "generate result =
     (case result of
        None \<Rightarrow> None
      | Some (addedCode, originalText) \<Rightarrow>
          Some (upsertKitFile_loop originalText addedCode 0 [], addedCode))"

definition upsertKitFile ::
  "'src externals \<Rightarrow> string \<Rightarrow> KitFilesSettings \<Rightarrow> (unit \<Rightarrow> 'src option) \<Rightarrow> (string \<Rightarrow> string)
     \<Rightarrow> (string \<times> AddedCode list) option" where
  "upsertKitFile ext fileName kitFilesSettings getSource surround =
     (let basename = path_basename ext fileName;
          result =
            orElse (upserKitRouteFile ext basename getSource surround)
              (orElse (upserKitServerHooksFile ext fileName basename
                         (serverHooksPath kitFilesSettings) getSource surround)
                 (orElse (upserKitClientHooksFile ext fileName basename
                            (clientHooksPath kitFilesSettings) getSource surround)
                    (upserKitParamsFile ext fileName basename
                       (paramsPath kitFilesSettings) getSource surround)))
      in generate result)"

subsection \<open>Concrete inputs for the examples\<close>

text \<open>
  Node's \<^verbatim>\<open>path.posix.basename\<close> and \<^verbatim>\<open>path.posix.extname\<close>: the last segment of the path
  with trailing separators ignored, and the part of that segment from its last dot, empty
  when there is no dot, when the only dot is the first character, and for \<^verbatim>\<open>..\<close>. A
  source file of the examples is its text together with its export descriptors.
\<close>

definition posix_basename :: "string \<Rightarrow> string" where
  "posix_basename p =
     rev (takeWhile (\<lambda>c. c \<noteq> CHR ''/'') (dropWhile (\<lambda>c. c = CHR ''/'') (rev p)))"

definition posix_extname :: "string \<Rightarrow> string" where
  "posix_extname p =
     (let b = posix_basename p;
          e = rev (takeWhile (\<lambda>c. c \<noteq> CHR ''.'') (rev b))
      in if CHR ''.'' \<notin> set b \<or> length e + 1 = length b \<or> b = ''..'' then []
         else CHR ''.'' # e)"

record SourceFile =
  fullText :: string
  exported :: "(string \<times> export) list"

definition posix :: "SourceFile externals" where
  "posix = \<lparr>path_basename = posix_basename, path_extname = posix_extname,
            findExports = (\<lambda>source isTsFile. map_of (exported source)),
            getFullText = fullText\<rparr>"

definition defaults :: KitFilesSettings where
  "defaults = \<lparr>serverHooksPath = ''src/hooks.server'', clientHooksPath = ''src/hooks.client'',
               paramsPath = ''src/params''\<rparr>"

definition load_page :: SourceFile where
  "load_page = \<lparr>fullText = ''export function load(e) { return 1 }'',
      exported = [(''load'', Function \<lparr>kind = OtherFunction, parameters = [22],
                                       has_type = False, body = Some 24\<rparr> False)]\<rparr>"

definition load_and_handle :: SourceFile where
  "load_and_handle = \<lparr>fullText = ''export function load(e) {}; export function handle(i) {}'',
      exported = [(''load'', Function \<lparr>kind = OtherFunction, parameters = [22],
                                       has_type = False, body = Some 24\<rparr> False),
                  (''handle'', Function \<lparr>kind = OtherFunction, parameters = [52],
                                       has_type = False, body = Some 54\<rparr> False)]\<rparr>"

text \<open>A server route file that exports \<^verbatim>\<open>load\<close> and \<^verbatim>\<open>actions\<close>, both untyped.\<close>

definition load_and_actions :: SourceFile where
  "load_and_actions =
     \<lparr>fullText = ''export function load(e) { return 1 }; export const actions = {}'',
      exported = [(''load'', Function \<lparr>kind = OtherFunction, parameters = [22],
                                       has_type = False, body = Some 24\<rparr> False),
                  (''actions'', Var \<lparr>name_end = 58, initializer = Some 63\<rparr> False)]\<rparr>"

section \<open>The template transpiler\<close>

subsection \<open>Failures and the text-splicing primitive\<close>

text \<open>
  A \<^verbatim>\<open>throw new Error(msg)\<close> of the source is \<open>Error msg\<close>; reading a property of
  \<^verbatim>\<open>undefined\<close> is \<open>TypeError\<close>. A function that can throw returns \<open>error + 'a\<close>, and
  \<open>bind\<close> passes the first failure on, as an uncaught exception does. A syntax node
  concatenated to a message prints as \<^verbatim>\<open>[object Object]\<close>.
\<close>

datatype error = Error string | TypeError

fun bind :: "error + 'a \<Rightarrow> ('a \<Rightarrow> error + 'b) \<Rightarrow> error + 'b" where
  "bind (Inl e) f = Inl e"
| "bind (Inr x) f = f x"

text \<open>
  The transpiler edits a \<^verbatim>\<open>MagicString\<close>, which it does not define. The model keeps the
  edits it asks for, in the order of the calls; \<^verbatim>\<open>str.original\<close> is the source text and
  never changes. Failures raised inside \<^verbatim>\<open>MagicString\<close> or inside the two parsers are
  outside the model.
\<close>

datatype edit =
    Move int int int
  | Overwrite int int string
  | Remove int int
  | PrependRight int string
  | Append string

subsection \<open>More JavaScript string operations\<close>

text \<open>\<^verbatim>\<open>substring(start, end)\<close> clamps both indices to the string and swaps them when
  they are out of order.\<close>

definition str_substring :: "string \<Rightarrow> int \<Rightarrow> int \<Rightarrow> string" where
  "str_substring s start end =
     (let len = int (length s);
          a = max 0 (min start len);
          b = max 0 (min end len)
      in take (nat (max a b - min a b)) (drop (nat (min a b)) s))"

text \<open>\<^verbatim>\<open>indexOf(t, from)\<close>: the first index at or after \<open>from\<close> where \<open>t\<close> occurs,
  \<open>-1\<close> when there is none.\<close>

fun indexOf_loop :: "string \<Rightarrow> string \<Rightarrow> nat \<Rightarrow> int" where
  "indexOf_loop [] t i = (if t = [] then int i else - 1)"
| "indexOf_loop (c # cs) t i =
     (if take (length t) (c # cs) = t then int i else indexOf_loop cs t (Suc i))"

definition str_indexOf :: "string \<Rightarrow> string \<Rightarrow> int \<Rightarrow> int" where
  "str_indexOf s t from =
     (let k = nat (max 0 (min from (int (length s)))) in indexOf_loop (drop k s) t k)"

text \<open>\<^verbatim>\<open>lastIndexOf(t, from)\<close>: the last index at or before \<open>from\<close> where \<open>t\<close> occurs,
  \<open>-1\<close> when there is none.\<close>

fun lastIndexOf_loop :: "string \<Rightarrow> string \<Rightarrow> nat \<Rightarrow> int" where
  "lastIndexOf_loop s t 0 = (if take (length t) s = t then 0 else - 1)"
| "lastIndexOf_loop s t (Suc i) =
     (if take (length t) (drop (Suc i) s) = t then int (Suc i) else lastIndexOf_loop s t i)"

definition str_lastIndexOf :: "string \<Rightarrow> string \<Rightarrow> int \<Rightarrow> int" where
  "str_lastIndexOf s t from =
     lastIndexOf_loop s t (nat (max 0 (min from (int (length s)))))"

text \<open>\<^verbatim>\<open>Array.prototype.join\<close>.\<close>

fun join :: "string \<Rightarrow> string list \<Rightarrow> string" where
  "join sep [] = []"
| "join sep [x] = x"
| "join sep (x # y # ys) = x @ sep @ join sep (y # ys)"

text \<open>\<^verbatim>\<open>Map.prototype.set\<close> on a \<^verbatim>\<open>Map\<close> kept as the list of its entries in insertion
  order: a key that is present keeps its place and takes the new value.\<close>

fun map_set :: "('k \<times> 'v) list \<Rightarrow> 'k \<Rightarrow> 'v \<Rightarrow> ('k \<times> 'v) list" where
  "map_set [] k v = [(k, v)]"
| "map_set ((k', v') # m) k v = (if k' = k then (k, v) # m else (k', v') # map_set m k v)"

subsection \<open>Syntax trees\<close>

text \<open>
  The part of a TypeScript statement that the transpiler reads. A binding name is an
  identifier with its text, or a destructuring pattern. A modifier has a kind and the
  offsets \<^verbatim>\<open>pos\<close> and \<^verbatim>\<open>end\<close>. A binary expression is kept as its left operand and its
  operator token.
  \<^item> \<open>VariableStatement modifiers names\<close>: \<^verbatim>\<open>vs.modifiers\<close>, which may be missing, and the
    \<^verbatim>\<open>name\<close> of each declaration of \<^verbatim>\<open>vs.declarationList.declarations\<close>;
  \<^item> \<open>FunctionDeclaration modifiers name\<close>: \<^verbatim>\<open>fd.modifiers\<close> and \<^verbatim>\<open>fd.name\<close>, each of
    which may be missing;
  \<^item> \<open>ExportDeclaration pos end elements\<close>: \<^verbatim>\<open>ed.pos\<close>, \<^verbatim>\<open>ed.end\<close> and, when there is an
    \<^verbatim>\<open>exportClause\<close>, the pair \<^verbatim>\<open>(propertyName, name)\<close> of each of its elements;
  \<^item> \<open>LabeledStatement pos label statement\<close>: \<^verbatim>\<open>ls.pos\<close>, \<^verbatim>\<open>ls.label.text\<close> and
    \<^verbatim>\<open>ls.statement\<close>;
  \<^item> \<open>ImportDeclaration pos end\<close>.
\<close>

datatype binding_name = Identifier string | BindingPattern

datatype modifier_kind = ExportKeyword | OtherModifier

record modifier =
  modifier_kind :: modifier_kind
  modifier_pos :: int
  modifier_end :: int

datatype operator = EqualsToken | OtherToken

datatype expression =
    IdentifierExpression string
  | BinaryExpression expression operator
  | OtherExpression

datatype labeled = ExpressionStatement "expression option" | OtherLabeled

datatype statement =
    VariableStatement "modifier list option" "binding_name list"
  | FunctionDeclaration "modifier list option" "binding_name option"
  | ExportDeclaration int int "(binding_name option \<times> binding_name) list option"
  | LabeledStatement int string "labeled option"
  | ImportDeclaration int int
  | OtherStatement

text \<open>
  The part of a node of the template tree that the transpiler reads. The value of an
  attribute is the list of its parts; a boolean attribute, whose value is \<^verbatim>\<open>true\<close>, reads
  like the empty list everywhere the source looks at it. A \<open>MustacheTag\<close> carries
  \<^verbatim>\<open>start\<close>, \<^verbatim>\<open>end\<close>, \<^verbatim>\<open>expression.start\<close> and \<^verbatim>\<open>expression.end\<close>.
\<close>

datatype value_part =
    Text string
  | MustacheTag int int int int
  | AttributeShorthand string
  | OtherPart string

record attribute =
  attr_name :: string
  attr_value :: "value_part list"

record node =
  node_type :: string
  node_start :: int
  node_end :: int
  node_name :: string
  node_attributes :: "attribute list option"
  content_start :: int
  content_end :: int

text \<open>\<^verbatim>\<open>part.raw\<close>, which only a text part has.\<close>

definition raw :: "value_part \<Rightarrow> string option" where
  "raw part = (case part of Text r \<Rightarrow> Some r | _ \<Rightarrow> None)"

type_synonym slot_info = "(string option \<times> (string \<times> string) list) list"

text \<open>What the transpiler calls but does not define: \<^verbatim>\<open>parseHtmlx\<close>, of which the model
  keeps \<^verbatim>\<open>ast.children\<close>; \<^verbatim>\<open>convertHtmlxToJsx\<close>, of which it keeps the edits made and the
  nodes handed to the callback \<^verbatim>\<open>onHtmlxWalk\<close>, in order; and TypeScript's
  \<^verbatim>\<open>createSourceFile\<close>, of which it keeps \<^verbatim>\<open>tsAst.statements\<close>.\<close>

record collaborators =
  parseHtmlx :: "string \<Rightarrow> node list"
  convertHtmlxToJsx :: "string \<Rightarrow> node list \<Rightarrow> edit list \<times> node list"
  createSourceFile :: "string \<Rightarrow> statement list"

subsection \<open>Slots\<close>

definition AttributeValueAsJsExpression :: "string \<Rightarrow> attribute \<Rightarrow> error + string" where
  "AttributeValueAsJsExpression htmlx attr =
     (case attr_value attr of
        [] \<Rightarrow> Inr [CHR 0x27, CHR 0x27]
      | [attrVal] \<Rightarrow>
          (case attrVal of
             AttributeShorthand name \<Rightarrow> Inr name
           | Text r \<Rightarrow> Inr ([CHR 0x22] @ r @ [CHR 0x22])
           | MustacheTag start end expression_start expression_end \<Rightarrow>
               Inr (str_substring htmlx expression_start expression_end)
           | OtherPart type \<Rightarrow> Inl (Error (''Unknown attribute value type:'' @ type)))
      | parts \<Rightarrow>
          (let valueParts = map (\<lambda>n. case n of
                 Text r \<Rightarrow> ''${'' @ [CHR 0x22] @ r @ [CHR 0x22] @ ''}''
               | MustacheTag start end expression_start expression_end \<Rightarrow>
                   ''$'' @ str_substring htmlx start end
               | _ \<Rightarrow> []) parts
           in Inr (''`'' @ join [] valueParts @ ''`'')))"

fun handleSlot_loop :: "string \<Rightarrow> attribute list \<Rightarrow> (string \<times> string) list
    \<Rightarrow> error + (string \<times> string) list" where
  "handleSlot_loop svelte [] attributes = Inr attributes"
| "handleSlot_loop svelte (attr # rest) attributes =
     (if attr_name attr = ''name'' then handleSlot_loop svelte rest attributes
      else if attr_value attr = [] then handleSlot_loop svelte rest attributes
      else bind (AttributeValueAsJsExpression svelte attr) (\<lambda>expr.
             handleSlot_loop svelte rest (map_set attributes (attr_name attr) expr)))"

definition handleSlot :: "string \<Rightarrow> node \<Rightarrow> slot_info \<Rightarrow> error + slot_info" where
  "handleSlot svelte node slots =
     (case node_attributes node of
        None \<Rightarrow> Inl TypeError
      | Some attrs \<Rightarrow>
          bind (case find (\<lambda>a. attr_name a = ''name'') attrs of
                  None \<Rightarrow> Inr (Some ''default'')
                | Some nameAttr \<Rightarrow>
                    (case attr_value nameAttr of
                       [] \<Rightarrow> Inl TypeError
                     | part # _ \<Rightarrow> Inr (raw part))) (\<lambda>slotName.
          bind (handleSlot_loop svelte attrs []) (\<lambda>attributes.
          Inr (map_set slots slotName attributes))))"

text \<open>The callback \<^verbatim>\<open>onHtmlxWalk\<close> on the nodes of the walk; its state is the flag
  \<^verbatim>\<open>uses$$props\<close> and the map \<^verbatim>\<open>slots\<close>.\<close>

fun onHtmlxWalk :: "string \<Rightarrow> node list \<Rightarrow> bool \<times> slot_info \<Rightarrow> error + (bool \<times> slot_info)" where
  "onHtmlxWalk svelte [] state = Inr state"
| "onHtmlxWalk svelte (node # rest) (uses_props, slots) =
     (if node_type node = ''Identifier''
      then onHtmlxWalk svelte rest (uses_props \<or> node_name node = ''$$props'', slots)
      else if node_type node = ''Slot''
      then bind (handleSlot svelte node slots) (\<lambda>slots'. onHtmlxWalk svelte rest (uses_props, slots'))
      else onHtmlxWalk svelte rest (uses_props, slots))"

definition slotsAsString :: "slot_info \<Rightarrow> string" where
  "slotsAsString slots =
     ''{'' @ join '', '' (map (\<lambda>(name, attrs).
        (case name of None \<Rightarrow> ''undefined'' | Some n \<Rightarrow> n) @ '': {''
        @ join '', '' (map (\<lambda>(exportName, expr). exportName @ '':'' @ expr) attrs)
        @ ''}'') slots) @ ''}''"

subsection \<open>Imports, styles and reactive declarations\<close>

fun processImports :: "edit list \<Rightarrow> statement list \<Rightarrow> int \<Rightarrow> int \<Rightarrow> edit list" where
  "processImports str [] astOffset target = str"
| "processImports str (st # rest) astOffset target =
     processImports
       (case st of
          ImportDeclaration pos end \<Rightarrow>
            str @ [Move (pos + astOffset) (end + astOffset) target,
                   Overwrite (end + astOffset - 1) (end + astOffset) [CHR 0x22, CHR 0x0A]]
        | _ \<Rightarrow> str)
       rest astOffset target"

fun removeStyleTags :: "edit list \<Rightarrow> node list \<Rightarrow> edit list" where
  "removeStyleTags str [] = str"
| "removeStyleTags str (n # rest) =
     removeStyleTags
       (if node_type n = ''Style'' then str @ [Remove (node_start n) (node_end n)] else str) rest"

text \<open>
  \<^verbatim>\<open>declaredNames.find(n => ident.text == n)\<close> gives the name found, which counts as
  true unless it is the empty string. The checks of the loop body all end in
  \<^verbatim>\<open>continue\<close>, so the statement is declared exactly when it passes all of them.
\<close>

fun declareImplictReactiveVariables ::
  "string list \<Rightarrow> edit list \<Rightarrow> statement list \<Rightarrow> int \<Rightarrow> edit list" where
  "declareImplictReactiveVariables declaredNames str [] astOffset = str"
| "declareImplictReactiveVariables declaredNames str (le # rest) astOffset =
     declareImplictReactiveVariables declaredNames
       (case le of
          LabeledStatement pos label
            (Some (ExpressionStatement (Some (BinaryExpression (IdentifierExpression text) EqualsToken)))) \<Rightarrow>
              (if label \<noteq> ''$'' then str
               else if text \<in> set declaredNames \<and> text \<noteq> [] then str
               else str @ [PrependRight (pos + astOffset + 1) ('';let '' @ text @ ''; '')])
        | _ \<Rightarrow> str)
       rest astOffset"

subsection \<open>Exports\<close>

text \<open>The state of \<^verbatim>\<open>replaceExports\<close>: the edits made so far, the map \<^verbatim>\<open>exportedNames\<close>
  from a source name to its rename target (\<^verbatim>\<open>null\<close> is \<open>None\<close>), and the array
  \<^verbatim>\<open>declaredNames\<close>.\<close>

record scan =
  str :: "edit list"
  exportedNames :: "(string \<times> string option) list"
  declaredNames :: "string list"

definition addDeclaredName :: "binding_name option \<Rightarrow> string list \<Rightarrow> error + string list" where
  "addDeclaredName name names =
     (case name of
        None \<Rightarrow> Inl TypeError
      | Some (Identifier text) \<Rightarrow> Inr (names @ [text])
      | Some BindingPattern \<Rightarrow> Inr names)"

definition addExport :: "binding_name option \<Rightarrow> binding_name option
    \<Rightarrow> (string \<times> string option) list \<Rightarrow> error + (string \<times> string option) list" where
  "addExport name target entries =
     (case name of
        None \<Rightarrow> Inl TypeError
      | Some BindingPattern \<Rightarrow> Inl (Error ''export source kind not supported [object Object]'')
      | Some (Identifier text) \<Rightarrow>
          (case target of
             None \<Rightarrow> Inr (map_set entries text None)
           | Some BindingPattern \<Rightarrow> Inl (Error ''export target kind not supported [object Object]'')
           | Some (Identifier target_text) \<Rightarrow> Inr (map_set entries text (Some target_text))))"

text \<open>\<^verbatim>\<open>removeExport(start, end)\<close> does not read its argument \<^verbatim>\<open>end\<close>.\<close>

definition removeExport :: "string \<Rightarrow> int \<Rightarrow> int \<Rightarrow> edit list \<Rightarrow> edit list" where
  "removeExport original astOffset start edits =
     (let exportStart = str_indexOf original ''export'' (start + astOffset);
          exportEnd = exportStart + int (length ''export'')
      in edits @ [Remove exportStart exportEnd])"

definition exportModifier :: "modifier list option \<Rightarrow> modifier option" where
  "exportModifier modifiers =
     (case modifiers of
        None \<Rightarrow> None
      | Some ms \<Rightarrow> find (\<lambda>x. modifier_kind x = ExportKeyword) ms)"

fun declarations_loop :: "bool \<Rightarrow> binding_name list \<Rightarrow> scan \<Rightarrow> error + scan" where
  "declarations_loop isExported [] st = Inr st"
| "declarations_loop isExported (v # rest) st =
     bind (if isExported then addExport (Some v) None (exportedNames st)
           else Inr (exportedNames st)) (\<lambda>names.
     bind (addDeclaredName (Some v) (declaredNames st)) (\<lambda>declared.
     declarations_loop isExported rest (st\<lparr>exportedNames := names, declaredNames := declared\<rparr>)))"

fun elements_loop :: "string \<Rightarrow> int \<Rightarrow> int \<Rightarrow> (binding_name option \<times> binding_name) list
    \<Rightarrow> scan \<Rightarrow> error + scan" where
  "elements_loop original astOffset pos [] st = Inr st"
| "elements_loop original astOffset pos ((propertyName, name) # rest) st =
     bind (case propertyName of
             Some source \<Rightarrow> addExport (Some source) (Some name) (exportedNames st)
           | None \<Rightarrow> addExport (Some name) None (exportedNames st)) (\<lambda>names.
     elements_loop original astOffset pos rest
       (st\<lparr>exportedNames := names, str := removeExport original astOffset pos (str st)\<rparr>))"

text \<open>The body of the loop of \<^verbatim>\<open>replaceExports\<close> over the statements.\<close>

definition replaceExports_statement :: "string \<Rightarrow> int \<Rightarrow> statement \<Rightarrow> scan \<Rightarrow> error + scan" where
  "replaceExports_statement original astOffset s st =
     (case s of
        VariableStatement modifiers names \<Rightarrow>
          (case exportModifier modifiers of
             Some m \<Rightarrow>
               declarations_loop True names
                 (st\<lparr>str := removeExport original astOffset (modifier_pos m) (str st)\<rparr>)
           | None \<Rightarrow> declarations_loop False names st)
      | FunctionDeclaration modifiers name \<Rightarrow>
          bind (case exportModifier modifiers of
                  Some m \<Rightarrow>
                    bind (addExport name None (exportedNames st)) (\<lambda>names.
                    Inr (st\<lparr>exportedNames := names,
                            str := removeExport original astOffset (modifier_pos m) (str st)\<rparr>))
                | None \<Rightarrow> Inr st) (\<lambda>st'.
          bind (addDeclaredName name (declaredNames st')) (\<lambda>declared.
          Inr (st'\<lparr>declaredNames := declared\<rparr>)))
      | ExportDeclaration pos end clause \<Rightarrow>
          (case clause of
             None \<Rightarrow> Inl TypeError
           | Some elements \<Rightarrow> elements_loop original astOffset pos elements st)
      | _ \<Rightarrow> Inr st)"

fun replaceExports_loop :: "string \<Rightarrow> int \<Rightarrow> statement list \<Rightarrow> scan \<Rightarrow> error + scan" where
  "replaceExports_loop original astOffset [] st = Inr st"
| "replaceExports_loop original astOffset (s # rest) st =
     bind (replaceExports_statement original astOffset s st)
       (replaceExports_loop original astOffset rest)"

definition replaceExports :: "string \<Rightarrow> edit list \<Rightarrow> statement list \<Rightarrow> int \<Rightarrow> error + scan" where
  "replaceExports original edits statements astOffset =
     replaceExports_loop original astOffset statements
       \<lparr>str = edits, exportedNames = [], declaredNames = []\<rparr>"

subsection \<open>Script tags\<close>

definition isModuleContext :: "attribute \<Rightarrow> bool" where
  "isModuleContext a =
     (attr_name a = ''context'' \<and> length (attr_value a) = 1
      \<and> raw (attr_value a ! 0) = Some ''module'')"

text \<open>The first module script of \<^verbatim>\<open>findModuleScriptTag\<close> (its loop ends with
  \<^verbatim>\<open>break\<close>) and the last instance script of \<^verbatim>\<open>processScriptTag\<close> (its loop does
  not).\<close>

definition findModuleScriptTag :: "node list \<Rightarrow> node option" where
  "findModuleScriptTag children =
     find (\<lambda>n. node_type n = ''Script''
                \<and> (case node_attributes n of None \<Rightarrow> False
                    | Some attrs \<Rightarrow> find isModuleContext attrs \<noteq> None)) children"

definition findScriptTag :: "node list \<Rightarrow> node option" where
  "findScriptTag children =
     find (\<lambda>n. node_type n = ''Script''
                \<and> (case node_attributes n of None \<Rightarrow> False
                    | Some attrs \<Rightarrow> find isModuleContext attrs = None)) (rev children)"

definition processModuleScriptTag :: "string \<Rightarrow> edit list \<Rightarrow> node \<Rightarrow> edit list" where
  "processModuleScriptTag htmlx edits script =
     (let scriptStartTagEnd = str_indexOf htmlx ''>'' (node_start script) + 1;
          scriptEndTagStart = str_lastIndexOf htmlx ''<'' (node_end script - 1)
      in edits @ [Overwrite (node_start script) scriptStartTagEnd ''</>;'',
                  Overwrite scriptEndTagStart (node_end script) '';<>''])"

text \<open>\<^verbatim>\<open>value ? `${value}: ${key}` : key\<close>: an empty rename target counts as none.\<close>

definition returnElements :: "(string \<times> string option) list \<Rightarrow> string list" where
  "returnElements entries =
     map (\<lambda>(key, value). case value of
            None \<Rightarrow> key
          | Some v \<Rightarrow> if v = [] then key else v @ '': '' @ key) entries"

definition returnString :: "(string \<times> string option) list \<Rightarrow> slot_info \<Rightarrow> string" where
  "returnString entries slots =
     [CHR 0x0A] @ ''return { props: {'' @ join '' , '' (returnElements entries)
     @ ''}, slots: '' @ slotsAsString slots @ '' }}''"

definition processScriptTag ::
  "collaborators \<Rightarrow> string \<Rightarrow> edit list \<Rightarrow> node list \<Rightarrow> slot_info \<Rightarrow> int \<Rightarrow> error + edit list" where
  "processScriptTag c htmlx edits children slots target =
     (case findScriptTag children of
        None \<Rightarrow>
          Inr (edits @ [PrependRight target (''</>;function render() {'' @ [CHR 0x0A] @ ''<>''),
                        Append ('';'' @ [CHR 0x0A] @ ''return { props: {}, slots: ''
                                @ slotsAsString slots @ '' }}'')])
      | Some script \<Rightarrow>
          (let edits1 = (if node_start script \<noteq> target
                         then edits @ [Move (node_start script) (node_end script) target]
                         else edits);
               tsAst = createSourceFile c
                         (str_substring htmlx (content_start script) (content_end script));
               scriptTagEnd = str_lastIndexOf htmlx ''>'' (content_start script) + 1;
               edits2 = edits1 @
                 [Overwrite (node_start script) (node_start script + 1) ''</>;'',
                  Overwrite (node_start script + 1) scriptTagEnd
                    (''function render() {'' @ [CHR 0x0A])];
               scriptEndTagStart = str_lastIndexOf htmlx ''<'' (node_end script - 1);
               edits3 = edits2 @
                 [Overwrite scriptEndTagStart (node_end script) ('';'' @ [CHR 0x0A] @ ''<>'')]
           in bind (replaceExports htmlx edits3 tsAst (content_start script)) (\<lambda>st.
                (let edits4 = declareImplictReactiveVariables (declaredNames st) (str st) tsAst
                                (content_start script);
                     edits5 = edits4 @ [Append (returnString (exportedNames st) slots)]
                 in Inr (processImports edits5 tsAst (content_start script)
                           (node_start script + 1))))))"

definition addComponentExport :: "edit list \<Rightarrow> bool \<Rightarrow> edit list" where
  "addComponentExport edits uses_props =
     edits @ [Append ([CHR 0x0A, CHR 0x0A] @ ''export default class {'' @ [CHR 0x0A]
        @ ''    $$prop_def = __sveltets_partial'' @ (if uses_props then ''_with_any'' else [])
        @ ''(render().props)'' @ [CHR 0x0A]
        @ ''    $$slot_def = render().slots'' @ [CHR 0x0A] @ ''}'')]"

text \<open>
  \<^verbatim>\<open>svelte2tsx\<close> returns \<^verbatim>\<open>str.toString()\<close> and a source map, both computed by
  \<^verbatim>\<open>MagicString\<close> from the edits; the model returns the edits. A failure anywhere leaves
  no result at all.
\<close>

definition svelte2tsx :: "collaborators \<Rightarrow> string \<Rightarrow> error + edit list" where
  "svelte2tsx c svelte =
     (let htmlxAst = parseHtmlx c svelte in
      case convertHtmlxToJsx c svelte htmlxAst of (jsx, visited) \<Rightarrow>
        bind (onHtmlxWalk svelte visited (False, [])) (\<lambda>(uses_props, slots).
          (let edits1 = removeStyleTags jsx htmlxAst;
               moduleScript = findModuleScriptTag htmlxAst;
               edits2 = (case moduleScript of
                           Some m \<Rightarrow> if node_start m \<noteq> 0
                                     then edits1 @ [Move (node_start m) (node_end m) 0]
                                     else edits1
                         | None \<Rightarrow> edits1);
               moveScriptTarget = (case moduleScript of
                                     Some m \<Rightarrow> if node_start m = 0 then node_end m else 0
                                   | None \<Rightarrow> 0)
           in bind (processScriptTag c svelte edits2 htmlxAst slots moveScriptTarget) (\<lambda>edits3.
                (let edits4 = (case moduleScript of
                                 Some m \<Rightarrow> processModuleScriptTag svelte edits3 m
                               | None \<Rightarrow> edits3)
                 in Inr (addComponentExport edits4 uses_props))))))"

subsection \<open>Concrete components for the examples\<close>

text \<open>
  A component that consists of one instance script, \<^verbatim>\<open><script>...</script>\<close>: the template
  parser gives the single script node, whose content starts after the eight characters of
  the opening tag and ends before the nine of the closing tag; the TypeScript parser gives
  the statements named; and the markup converter is taken to make no edit and to hand no
  node to the callback.
\<close>

definition script_only :: "statement list \<Rightarrow> collaborators" where
  "script_only statements =
     \<lparr>parseHtmlx = (\<lambda>svelte.
        [\<lparr>node_type = ''Script'', node_start = 0, node_end = int (length svelte),
          node_name = [], node_attributes = Some [],
          content_start = 8, content_end = int (length svelte) - 9\<rparr>]),
      convertHtmlxToJsx = (\<lambda>svelte children. ([], [])),
      createSourceFile = (\<lambda>text. statements)\<rparr>"

text \<open>The statements of \<^verbatim>\<open>export { a as b }; export { a as c }\<close>, of \<^verbatim>\<open>export { a as b }\<close>, of
  \<^verbatim>\<open>$: x = 1\<close> and of \<^verbatim>\<open>export let {a} = o\<close>, each as the only text of the script.\<close>

definition two_aliases :: "statement list" where
  "two_aliases =
     [ExportDeclaration 0 18 (Some [(Some (Identifier ''a''), Identifier ''b'')]),
      ExportDeclaration 18 36 (Some [(Some (Identifier ''a''), Identifier ''c'')])]"

definition one_alias :: "statement list" where
  "one_alias = [ExportDeclaration 0 17 (Some [(Some (Identifier ''a''), Identifier ''b'')])]"

definition reactive_x :: "statement list" where
  "reactive_x =
     [LabeledStatement 0 ''$''
        (Some (ExpressionStatement
           (Some (BinaryExpression (IdentifierExpression ''x'') EqualsToken))))]"

definition export_pattern :: "statement list" where
  "export_pattern =
     [VariableStatement
        (Some [\<lparr>modifier_kind = ExportKeyword, modifier_pos = 0, modifier_end = 6\<rparr>])
        [BindingPattern]]"

text \<open>A template without any script.\<close>

definition no_script :: collaborators where
  "no_script =
     \<lparr>parseHtmlx = (\<lambda>svelte. []), convertHtmlxToJsx = (\<lambda>svelte children. ([], [])),
      createSourceFile = (\<lambda>text. [])\<rparr>"

subsection \<open>Vocabulary of the statements about exports\<close>

text \<open>
  The source name of an element of an export clause is its \<^verbatim>\<open>propertyName\<close> when it has
  one and its \<^verbatim>\<open>name\<close> otherwise; \<open>export_sources\<close> lists the names that a statement
  exports. A statement is an unsupported export when it exports under a name, or renames
  to a name, that is not an identifier; a function declaration exported without a name
  counts as one.
\<close>

definition element_source :: "binding_name option \<times> binding_name \<Rightarrow> binding_name" where
  "element_source element = (case element of (Some source, name) \<Rightarrow> source | (None, name) \<Rightarrow> name)"

definition export_sources :: "statement \<Rightarrow> binding_name list" where
  "export_sources s =
     (case s of
        VariableStatement modifiers names \<Rightarrow>
          (if exportModifier modifiers = None then [] else names)
      | FunctionDeclaration modifiers name \<Rightarrow>
          (if exportModifier modifiers = None then []
           else (case name of None \<Rightarrow> [] | Some n \<Rightarrow> [n]))
      | ExportDeclaration pos end clause \<Rightarrow>
          (case clause of None \<Rightarrow> [] | Some elements \<Rightarrow> map element_source elements)
      | _ \<Rightarrow> [])"

definition unsupported_export :: "statement \<Rightarrow> bool" where
  "unsupported_export s =
     (case s of
        VariableStatement modifiers names \<Rightarrow>
          exportModifier modifiers \<noteq> None \<and> BindingPattern \<in> set names
      | FunctionDeclaration modifiers name \<Rightarrow>
          exportModifier modifiers \<noteq> None \<and> (name = None \<or> name = Some BindingPattern)
      | ExportDeclaration pos end clause \<Rightarrow>
          (case clause of
             None \<Rightarrow> False
           | Some elements \<Rightarrow>
               list_ex (\<lambda>(source, name). source = Some BindingPattern \<or> name = BindingPattern)
                 elements)
      | _ \<Rightarrow> False)"

text \<open>An export that already carries a type definition.\<close>

definition typed :: "export \<Rightarrow> bool" where
  "typed e = (case e of Function node hasTypeDefinition \<Rightarrow> hasTypeDefinition
              | Var node hasTypeDefinition \<Rightarrow> hasTypeDefinition)"

text \<open>A route file whose \<^verbatim>\<open>load\<close> export is already typed.\<close>

definition typed_page :: SourceFile where
  "typed_page = \<lparr>fullText = ''export function load(e: E) { return 1 }'',
      exported = [(''load'', Function \<lparr>kind = OtherFunction, parameters = [25],
                                       has_type = False, body = Some 27\<rparr> True)]\<rparr>"

section \<open>Properties of the ledger\<close>

lemma findIndex_takeWhile:
  "findIndex P xs = (if \<exists>x\<in>set xs. P x then int (length (takeWhile (\<lambda>x. \<not> P x) xs)) else - 1)"
  by (induction xs) (auto simp: Let_def)

lemma insertCode_split:
  "insertCode cs pos ins =
     takeWhile (\<lambda>c. originalPos c \<le> pos) cs
     @ fresh (last_total (takeWhile (\<lambda>c. originalPos c \<le> pos) cs)) pos ins
     # map (shift (int (length ins))) (dropWhile (\<lambda>c. originalPos c \<le> pos) cs)"
proof (cases "\<exists>c\<in>set cs. originalPos c > pos")
  case True
  let ?pre = "takeWhile (\<lambda>c. originalPos c \<le> pos) cs"
  let ?post = "dropWhile (\<lambda>c. originalPos c \<le> pos) cs"
  have P: "(\<lambda>c. \<not> pos < originalPos c) = (\<lambda>c. originalPos c \<le> pos)" by auto
  have idx: "findIndex (\<lambda>c. originalPos c > pos) cs = int (length ?pre)"
    using True by (simp add: findIndex_takeWhile P)
  have t: "take (length ?pre) cs = ?pre" by (metis takeWhile_eq_take)
  have d: "drop (length ?pre) cs = ?post" by (metis dropWhile_eq_drop)
  let ?sh = "?pre @ map (shift (int (length ins))) ?post"
  have nth: "?pre \<noteq> [] \<Longrightarrow> ?sh ! (length ?pre - 1) = last ?pre"
    by (simp add: nth_append last_conv_nth)
  have tk: "take (length ?pre) ?sh = ?pre" by simp
  have dr: "drop (length ?pre) ?sh = map (shift (int (length ins))) ?post" by simp
  have "insertCode cs pos ins =
     take (length ?pre) ?sh @
       \<lparr>generatedPos = pos + (if length ?pre = 0 then 0 else total' (?sh ! (length ?pre - 1))),
        originalPos = pos, length' = int (length ins),
        total' = (if length ?pre = 0 then 0 else total' (?sh ! (length ?pre - 1))) + int (length ins),
        inserted = ins\<rparr> # drop (length ?pre) ?sh"
    unfolding insertCode_def Let_def idx by (simp only: nat_int t d if_True of_nat_0_le_iff)
  also have "\<dots> = ?pre @ fresh (last_total ?pre) pos ins # map (shift (int (length ins))) ?post"
    unfolding tk dr using nth by (simp add: fresh_def last_total_def)
  finally show ?thesis .
next
  case False
  then have all: "\<forall>c\<in>set cs. originalPos c \<le> pos" by auto
  have P: "(\<lambda>c. \<not> pos < originalPos c) = (\<lambda>c. originalPos c \<le> pos)" by auto
  have idx: "findIndex (\<lambda>c. originalPos c > pos) cs = - 1"
    using False by (simp add: findIndex_takeWhile)
  have t: "takeWhile (\<lambda>c. originalPos c \<le> pos) cs = cs" using all by simp
  have d: "dropWhile (\<lambda>c. originalPos c \<le> pos) cs = []" using all by simp
  show ?thesis
    by (simp add: insertCode_def idx t d Let_def fresh_def last_total_def)
qed


lemma consistent_from_append:
  "consistent_from t (xs @ ys) =
     (consistent_from t xs \<and> consistent_from (if xs = [] then t else total' (last xs)) ys)"
  by (induction xs arbitrary: t) auto

lemma consistent_from_shift:
  "consistent_from t cs \<Longrightarrow> consistent_from (t + n) (map (shift n) cs)"
  by (induction cs arbitrary: t) (auto simp: shift_def)

lemma consistent_from_fresh:
  "consistent_from t [fresh t pos ins]"
  by (simp add: fresh_def)

lemma insertCode_consistent:
  assumes "consistent_from 0 cs"
  shows "consistent_from 0 (insertCode cs pos ins)"
proof -
  let ?pre = "takeWhile (\<lambda>c. originalPos c \<le> pos) cs"
  let ?post = "dropWhile (\<lambda>c. originalPos c \<le> pos) cs"
  have "consistent_from 0 (?pre @ ?post)" using assms by simp
  then have pre: "consistent_from 0 ?pre" and post: "consistent_from (last_total ?pre) ?post"
    unfolding consistent_from_append last_total_def by simp_all
  have post': "consistent_from (last_total ?pre + int (length ins)) (map (shift (int (length ins))) ?post)"
    using post by (rule consistent_from_shift)
  have mid: "consistent_from (last_total ?pre)
          (fresh (last_total ?pre) pos ins # map (shift (int (length ins))) ?post)"
    using post' by (simp add: fresh_def)
  have "consistent_from 0 (?pre @ fresh (last_total ?pre) pos ins # map (shift (int (length ins))) ?post)"
    unfolding consistent_from_append using pre mid by (simp only: last_total_def simp_thms)
  then show ?thesis by (simp only: insertCode_split)
qed

lemma originalPos_shift [simp]: "originalPos (shift n c) = originalPos c"
  by (simp add: shift_def)

lemma originalPos_fresh [simp]: "originalPos (fresh t pos ins) = pos"
  by (simp add: fresh_def)

lemma map_originalPos_insertCode:
  "map originalPos (insertCode cs pos ins) =
     takeWhile (\<lambda>p. p \<le> pos) (map originalPos cs) @ pos # dropWhile (\<lambda>p. p \<le> pos) (map originalPos cs)"
  by (simp add: insertCode_split takeWhile_map dropWhile_map comp_def)

lemma sorted_split_insert:
  "sorted (ps :: int list) \<Longrightarrow>
     sorted (takeWhile (\<lambda>p. p \<le> pos) ps @ pos # dropWhile (\<lambda>p. p \<le> pos) ps)"
  by (induction ps) (auto dest: set_takeWhileD set_dropWhileD)

lemma strict_sorted_split_insert:
  "sorted_wrt (<) (ps :: int list) \<Longrightarrow> pos \<notin> set ps \<Longrightarrow>
     sorted_wrt (<) (takeWhile (\<lambda>p. p \<le> pos) ps @ pos # dropWhile (\<lambda>p. p \<le> pos) ps)"
  by (induction ps) (auto dest: set_takeWhileD set_dropWhileD)

lemma insertCode_sorted:
  "sorted (map originalPos cs) \<Longrightarrow> sorted (map originalPos (insertCode cs pos ins))"
  unfolding map_originalPos_insertCode by (rule sorted_split_insert)

lemma insertCode_strict:
  assumes "sorted_wrt (<) (map originalPos cs)" and "pos \<notin> originalPos ` set cs"
  shows "sorted_wrt (<) (map originalPos (insertCode cs pos ins))"
  unfolding map_originalPos_insertCode
  using assms by (intro strict_sorted_split_insert) simp_all

lemma set_originalPos_insertCode:
  "originalPos ` set (insertCode cs pos ins) = insert pos (originalPos ` set cs)"
proof -
  let ?ps = "map originalPos cs"
  have "set (takeWhile (\<lambda>p. p \<le> pos) ?ps) \<union> set (dropWhile (\<lambda>p. p \<le> pos) ?ps) = set ?ps"
    by (metis set_append takeWhile_dropWhile_id)
  moreover have "set (map originalPos (insertCode cs pos ins)) =
        insert pos (set (takeWhile (\<lambda>p. p \<le> pos) ?ps) \<union> set (dropWhile (\<lambda>p. p \<le> pos) ?ps))"
    unfolding map_originalPos_insertCode by simp
  ultimately show ?thesis by simp
qed

lemma insertCalls_snoc:
  "insertCalls (calls @ [(pos, ins)]) = insertCode (insertCalls calls) pos ins"
  by (simp add: insertCalls_def)

lemma insertCalls_consistent: "consistent_from 0 (insertCalls calls)"
proof (induction calls rule: rev_induct)
  case Nil
  then show ?case by (simp add: insertCalls_def)
next
  case (snoc c calls)
  then show ?case by (cases c) (simp add: insertCalls_snoc insertCode_consistent)
qed

lemma insertCalls_sorted: "sorted (map originalPos (insertCalls calls))"
proof (induction calls rule: rev_induct)
  case Nil
  then show ?case by (simp add: insertCalls_def)
next
  case (snoc c calls)
  then show ?case by (cases c) (simp add: insertCalls_snoc insertCode_sorted)
qed

lemma insertCalls_positions: "originalPos ` set (insertCalls calls) = fst ` set calls"
proof (induction calls rule: rev_induct)
  case Nil
  then show ?case by (simp add: insertCalls_def)
next
  case (snoc c calls)
  then show ?case by (cases c) (simp add: insertCalls_snoc set_originalPos_insertCode)
qed

lemma insertCalls_strict:
  "distinct (map fst calls) \<Longrightarrow> sorted_wrt (<) (map originalPos (insertCalls calls))"
proof (induction calls rule: rev_induct)
  case Nil
  then show ?case by (simp add: insertCalls_def)
next
  case (snoc c calls)
  obtain pos ins where c: "c = (pos, ins)" by (cases c)
  from snoc.prems have d: "distinct (map fst calls)" and n: "pos \<notin> fst ` set calls"
    by (simp_all add: c)
  from n have "pos \<notin> originalPos ` set (insertCalls calls)"
    by (simp add: insertCalls_positions)
  with snoc.IH[OF d] show ?case
    unfolding c insertCalls_snoc by (rule insertCode_strict)
qed


lemma consistent_from_nth:
  "consistent_from t cs \<Longrightarrow> i < length cs \<Longrightarrow>
     total' (cs ! i) = t + (\<Sum>j\<le>i. length' (cs ! j)) \<and>
     generatedPos (cs ! i) = originalPos (cs ! i) + (if i = 0 then t else total' (cs ! (i - 1)))"
proof (induction cs arbitrary: t i)
  case Nil
  then show ?case by simp
next
  case (Cons c cs)
  show ?case
  proof (cases i)
    case 0
    with Cons.prems show ?thesis by simp
  next
    case (Suc k)
    from Cons.prems(2) have k: "k < length cs" unfolding Suc by simp
    from Cons.prems(1) have c: "consistent_from (total' c) cs"
      and tc: "total' c = t + length' c" unfolding consistent_from.simps by blast+
    from Cons.IH[OF c k] show ?thesis
      unfolding Suc by (simp add: tc sum.atMost_Suc_shift del: sum.atMost_Suc)
  qed
qed

lemma toVirtualPos_loop_takeWhile:
  "toVirtualPos_loop pos cs t =
     t + sum_list (map length' (takeWhile (\<lambda>c. originalPos c \<le> pos) cs))"
  by (induction cs arbitrary: t) auto

lemma toOriginalPos_loop_takeWhile:
  "toOriginalPos_loop pos cs t i =
     (t + sum_list (map length' (takeWhile (\<lambda>c. generatedPos c \<le> pos) cs)),
      i + length (takeWhile (\<lambda>c. generatedPos c \<le> pos) cs))"
  by (induction cs arbitrary: t i) auto

lemma consistent_from_length_nonneg:
  "consistent_from t cs \<Longrightarrow> c \<in> set cs \<Longrightarrow> 0 \<le> length' c"
  by (induction cs arbitrary: t) auto

lemma consistent_from_last_total:
  "consistent_from t cs \<Longrightarrow>
     (if cs = [] then t else total' (last cs)) = t + sum_list (map length' cs)"
  by (induction cs arbitrary: t) auto

lemma consistent_from_lower:
  "consistent_from t cs \<Longrightarrow> c \<in> set cs \<Longrightarrow> originalPos c + t \<le> generatedPos c"
proof (induction cs arbitrary: t)
  case Nil
  then show ?case by simp
next
  case (Cons d cs)
  show ?case
  proof (cases "c = d")
    case True
    with Cons.prems show ?thesis by simp
  next
    case False
    with Cons.prems(2) have "c \<in> set cs" by simp
    moreover from Cons.prems(1) have "consistent_from (total' d) cs"
      and "total' d = t + length' d" and "length' d = int (length (inserted d))"
      unfolding consistent_from.simps by blast+
    ultimately show ?thesis using Cons.IH[of "total' d"] by force
  qed
qed

lemma consistent_from_upper:
  "consistent_from t cs \<Longrightarrow> c \<in> set cs \<Longrightarrow>
     generatedPos c + length' c \<le> originalPos c + t + sum_list (map length' cs)"
proof (induction cs arbitrary: t)
  case Nil
  then show ?case by simp
next
  case (Cons d cs)
  show ?case
  proof (cases "c = d")
    case True
    have "0 \<le> sum_list (map length' cs)"
      using Cons.prems(1) by (auto intro!: sum_list_nonneg dest: consistent_from_length_nonneg)
    with True Cons.prems show ?thesis by simp
  next
    case False
    with Cons.prems(2) have "c \<in> set cs" by simp
    moreover from Cons.prems(1) have "consistent_from (total' d) cs"
      and "total' d = t + length' d"
      unfolding consistent_from.simps by blast+
    ultimately show ?thesis using Cons.IH[of "total' d"] by force
  qed
qed

lemma roundtrip_consistent:
  assumes cons: "consistent_from 0 cs"
  shows "toOriginalPos (toVirtualPos p cs) cs = (p, False)"
proof -
  let ?pre = "takeWhile (\<lambda>c. originalPos c \<le> p) cs"
  let ?post = "dropWhile (\<lambda>c. originalPos c \<le> p) cs"
  let ?T = "sum_list (map length' ?pre)"
  let ?v = "p + ?T"
  have v: "toVirtualPos p cs = ?v"
    by (simp add: toVirtualPos_def toVirtualPos_loop_takeWhile)
  have "consistent_from 0 (?pre @ ?post)" using cons by simp
  then have pre: "consistent_from 0 ?pre"
    and post: "consistent_from (if ?pre = [] then 0 else total' (last ?pre)) ?post"
    unfolding consistent_from_append by simp_all
  have lt: "(if ?pre = [] then 0 else total' (last ?pre)) = ?T"
    using consistent_from_last_total[OF pre] by simp
  have post': "consistent_from ?T ?post" using post unfolding lt .
  have in_pre: "\<forall>c\<in>set ?pre. generatedPos c \<le> ?v"
  proof
    fix c assume c: "c \<in> set ?pre"
    then have "originalPos c \<le> p" by (auto dest: set_takeWhileD)
    moreover have "generatedPos c + length' c \<le> originalPos c + 0 + ?T"
      using consistent_from_upper[OF pre c] .
    moreover have "0 \<le> length' c" using consistent_from_length_nonneg[OF pre c] .
    ultimately show "generatedPos c \<le> ?v" by simp
  qed
  have stop: "takeWhile (\<lambda>c. generatedPos c \<le> ?v) ?post = []"
  proof (cases ?post)
    case Nil
    show ?thesis by (simp only: Nil takeWhile.simps)
  next
    case (Cons d ds)
    then have "\<not> originalPos d \<le> p" by (metis dropWhile_eq_Cons_conv)
    moreover have "generatedPos d = originalPos d + ?T" using post' Cons by simp
    ultimately show ?thesis using Cons by simp
  qed
  have "takeWhile (\<lambda>c. generatedPos c \<le> ?v) (?pre @ ?post) = ?pre @ takeWhile (\<lambda>c. generatedPos c \<le> ?v) ?post"
    using in_pre by (intro takeWhile_append2) simp
  then have tw: "takeWhile (\<lambda>c. generatedPos c \<le> ?v) cs = ?pre" using stop by simp
  have loop: "toOriginalPos_loop ?v cs 0 0 = (?T, length ?pre)"
    by (simp only: toOriginalPos_loop_takeWhile tw) simp
  have outside: "\<not> ?v < generatedPos (cs ! (length ?pre - 1)) + length' (cs ! (length ?pre - 1))"
    if ne: "length ?pre > 0"
  proof -
    from ne have nonempty: "?pre \<noteq> []" by simp
    have "cs ! (length ?pre - 1) = ?pre ! (length ?pre - 1)"
      using ne by (intro takeWhile_nth[symmetric]) simp
    also have "\<dots> = last ?pre" using nonempty by (simp add: last_conv_nth)
    finally have prev: "cs ! (length ?pre - 1) = last ?pre" .
    have l: "last ?pre \<in> set ?pre" using nonempty by simp
    then have "originalPos (last ?pre) \<le> p" by (auto dest: set_takeWhileD)
    moreover have "generatedPos (last ?pre) + length' (last ?pre) \<le> originalPos (last ?pre) + 0 + ?T"
      using consistent_from_upper[OF pre l] .
    ultimately show ?thesis unfolding prev by simp
  qed
  show ?thesis
    unfolding v toOriginalPos_def loop using outside by auto
qed


lemma spans_ordered:
  "consistent_from t cs \<Longrightarrow> sorted (map originalPos cs) \<Longrightarrow>
     sorted_wrt (\<lambda>a b. generatedPos a + length' a \<le> generatedPos b) cs"
proof (induction cs arbitrary: t)
  case Nil
  then show ?case by simp
next
  case (Cons c cs)
  from Cons.prems(1) have rest: "consistent_from (total' c) cs"
    and g: "generatedPos c = originalPos c + t" and tc: "total' c = t + length' c"
    unfolding consistent_from.simps by blast+
  from Cons.prems(2) have srt: "sorted (map originalPos cs)"
    and le: "\<forall>b\<in>set cs. originalPos c \<le> originalPos b" by simp_all
  have "generatedPos c + length' c \<le> generatedPos b" if b: "b \<in> set cs" for b
  proof -
    have "originalPos b + total' c \<le> generatedPos b"
      using consistent_from_lower[OF rest b] .
    moreover have "originalPos c \<le> originalPos b" using le b by blast
    ultimately show ?thesis unfolding g tc by simp
  qed
  with Cons.IH[OF rest srt] show ?case by simp
qed

lemma generatedPos_sorted:
  assumes "consistent_from t cs" and "sorted (map originalPos cs)"
  shows "sorted_wrt (\<lambda>a b. generatedPos a \<le> generatedPos b) cs"
proof -
  have "generatedPos a \<le> generatedPos b"
    if "a \<in> set cs" and "generatedPos a + length' a \<le> generatedPos b" for a b
    using that consistent_from_length_nonneg[OF assms(1), of a] by simp
  then show ?thesis
    using sorted_wrt_mono_rel[OF _ spans_ordered[OF assms], of "\<lambda>a b. generatedPos a \<le> generatedPos b"]
    by blast
qed

lemma dropWhile_above:
  "sorted_wrt (\<lambda>a b. generatedPos a \<le> generatedPos b) cs \<Longrightarrow>
     x \<in> set (dropWhile (\<lambda>c. generatedPos c \<le> q) cs) \<Longrightarrow> \<not> generatedPos x \<le> q"
  by (induction cs) (auto split: if_splits)

lemma inside_span:
  assumes cons: "consistent_from 0 cs" and srt: "sorted (map originalPos cs)"
    and j: "j < length cs"
    and lo: "generatedPos (cs ! j) < q" and hi: "q < generatedPos (cs ! j) + length' (cs ! j)"
  shows "toOriginalPos q cs = (originalPos (cs ! j), True)"
proof -
  let ?r = "cs ! j"
  let ?xs = "take j cs"
  let ?ys = "drop (Suc j) cs"
  let ?P = "\<lambda>c. generatedPos c \<le> q"
  have split: "cs = ?xs @ ?r # ?ys" using j by (rule id_take_nth_drop)
  have sp: "sorted_wrt (\<lambda>a b. generatedPos a + length' a \<le> generatedPos b) (?xs @ ?r # ?ys)"
    using spans_ordered[OF cons srt] split by simp
  have before: "\<forall>a\<in>set ?xs. ?P a"
  proof
    fix a assume a: "a \<in> set ?xs"
    then have "a \<in> set cs" by (rule in_set_takeD)
    then have "0 \<le> length' a" using consistent_from_length_nonneg[OF cons] by blast
    moreover have "generatedPos a + length' a \<le> generatedPos ?r"
      using sp a by (simp add: sorted_wrt_append)
    ultimately show "?P a" using lo by simp
  qed
  have after: "takeWhile ?P ?ys = []"
  proof (cases ?ys)
    case Nil
    show ?thesis by (simp only: Nil takeWhile.simps)
  next
    case (Cons d ds)
    have "generatedPos ?r + length' ?r \<le> generatedPos d"
      using sp unfolding Cons by (simp add: sorted_wrt_append)
    with hi show ?thesis unfolding Cons by simp
  qed
  have "takeWhile ?P (?xs @ ?r # ?ys) = ?xs @ takeWhile ?P (?r # ?ys)"
    using before by (intro takeWhile_append2) simp
  also have "\<dots> = ?xs @ [?r]" using lo after by simp
  finally have tw: "takeWhile ?P cs = ?xs @ [?r]" using split by simp
  have len: "length (?xs @ [?r]) = Suc j" using j by simp
  have loop: "toOriginalPos_loop q cs 0 0 = (sum_list (map length' (?xs @ [?r])), Suc j)"
    by (simp only: toOriginalPos_loop_takeWhile tw len) simp
  show ?thesis
    unfolding toOriginalPos_def loop using lo hi by simp
qed

lemma outside_spans:
  assumes cons: "consistent_from 0 cs" and srt: "sorted (map originalPos cs)"
    and out: "\<forall>j<length cs. \<not> (generatedPos (cs ! j) < q \<and> q < generatedPos (cs ! j) + length' (cs ! j))"
  shows "toOriginalPos q cs =
           (q - sum_list (map length' (filter (\<lambda>c. generatedPos c \<le> q) cs)), False)"
proof -
  let ?P = "\<lambda>c. generatedPos c \<le> q"
  have tf: "takeWhile ?P cs = filter ?P cs"
    using dropWhile_above[OF generatedPos_sorted[OF cons srt]]
    by (intro takeWhile_eq_filter) blast
  have loop: "toOriginalPos_loop q cs 0 0 =
      (sum_list (map length' (filter ?P cs)), length (takeWhile ?P cs))"
    by (simp only: toOriginalPos_loop_takeWhile tf) simp
  have "length (takeWhile ?P cs) - 1 < length cs" if "0 < length (takeWhile ?P cs)"
    using that length_takeWhile_le[of ?P cs] by linarith
  with out have "\<not> (0 < length (takeWhile ?P cs)
       \<and> generatedPos (cs ! (length (takeWhile ?P cs) - 1)) < q
       \<and> q < generatedPos (cs ! (length (takeWhile ?P cs) - 1))
              + length' (cs ! (length (takeWhile ?P cs) - 1)))"
    by blast
  then show ?thesis
    unfolding toOriginalPos_def loop by auto
qed

lemma length_insertCode: "length (insertCode cs pos ins) = Suc (length cs)"
proof -
  have "length (takeWhile (\<lambda>c. originalPos c \<le> pos) cs) + length (dropWhile (\<lambda>c. originalPos c \<le> pos) cs) = length cs"
    by (metis length_append takeWhile_dropWhile_id)
  then show ?thesis by (simp add: insertCode_split)
qed

lemma insertCode_duplicate:
  assumes "pos \<in> originalPos ` set cs"
  shows "\<not> distinct (map originalPos (insertCode cs pos ins))"
proof -
  have "set (map originalPos (insertCode cs pos ins)) = insert pos (originalPos ` set cs)"
    using set_originalPos_insertCode[of cs pos ins] by simp
  then have "card (set (map originalPos (insertCode cs pos ins))) \<le> length cs"
    using assms by (simp add: insert_absorb card_image_le[THEN le_trans] card_length)
  moreover have "length (map originalPos (insertCode cs pos ins)) = Suc (length cs)"
    using length_insertCode[of cs pos ins] by simp
  ultimately show ?thesis
    using distinct_card[of "map originalPos (insertCode cs pos ins)"] by linarith
qed



subsection \<open>Two concrete ledgers\<close>

text \<open>Three insertions made out of order, and the same three made in increasing order: the
  second call of the first sequence goes through the splice branch of \<^verbatim>\<open>insertCode\<close>.\<close>

lemma sample_ledger:
  "insertCalls [(5, ''ab''), (2, ''xyz''), (9, ''q'')] =
     [\<lparr>generatedPos = 2, originalPos = 2, length' = 3, total' = 3, inserted = ''xyz''\<rparr>,
      \<lparr>generatedPos = 8, originalPos = 5, length' = 2, total' = 5, inserted = ''ab''\<rparr>,
      \<lparr>generatedPos = 14, originalPos = 9, length' = 1, total' = 6, inserted = ''q''\<rparr>]"
  by (simp add: insertCalls_def insertCode_def shift_def)

lemma increasing_ledger:
  "insertCalls [(2, ''xyz''), (5, ''ab''), (9, ''q'')] =
     [\<lparr>generatedPos = 2, originalPos = 2, length' = 3, total' = 3, inserted = ''xyz''\<rparr>,
      \<lparr>generatedPos = 8, originalPos = 5, length' = 2, total' = 5, inserted = ''ab''\<rparr>,
      \<lparr>generatedPos = 14, originalPos = 9, length' = 1, total' = 6, inserted = ''q''\<rparr>]"
  by (simp add: insertCalls_def insertCode_def shift_def)

subsection \<open>Round trip\<close>

text \<open>
  Claim C1. For every ledger built by applying insert at strictly increasing
  \<^verbatim>\<open>originalPos\<close> values, and for every original offset \<open>p\<close> whose generated image
  \<open>toVirtualPos p\<close> does not fall strictly inside any inserted span,
  \<open>toOriginalPos (toVirtualPos p)\<close> returns \<open>p\<close> with \<open>inGenerated = False\<close>.
  (\<open>roundtrip_consistent\<close> above shows that neither hypothesis is needed: the image of an
  offset is never strictly inside a span.)
\<close>

theorem toOriginalPos_toVirtualPos_roundtrip:
  assumes "sorted_wrt (<) (map fst calls)"
    and "\<forall>c\<in>set (insertCalls calls).
           \<not> (generatedPos c < toVirtualPos p (insertCalls calls)
              \<and> toVirtualPos p (insertCalls calls) < generatedPos c + length' c)"
  shows "toOriginalPos (toVirtualPos p (insertCalls calls)) (insertCalls calls) = (p, False)"
  using insertCalls_consistent by (rule roundtrip_consistent)

theorem toOriginalPos_toVirtualPos_roundtrip_witness:
  "sorted_wrt (<) (map fst [(2 :: int, ''xyz''), (5, ''ab''), (9, ''q'')])
   \<and> map (\<lambda>c. (generatedPos c, generatedPos c + length' c))
         (insertCalls [(2, ''xyz''), (5, ''ab''), (9, ''q'')]) = [(2, 5), (8, 10), (14, 15)]
   \<and> toVirtualPos 5 (insertCalls [(2, ''xyz''), (5, ''ab''), (9, ''q'')]) = 10
   \<and> toOriginalPos 10 (insertCalls [(2, ''xyz''), (5, ''ab''), (9, ''q'')]) = (5, False)"
proof -
  let ?L = "insertCalls [(2, ''xyz''), (5, ''ab''), (9, ''q'')]"
  have v: "toVirtualPos 5 ?L = 10"
    by (simp add: increasing_ledger toVirtualPos_def)
  have spans: "map (\<lambda>c. (generatedPos c, generatedPos c + length' c)) ?L = [(2, 5), (8, 10), (14, 15)]"
    by (simp add: increasing_ledger)
  have h1: "sorted_wrt (<) (map fst [(2 :: int, ''xyz''), (5, ''ab''), (9, ''q'')])" by simp
  have h2: "\<forall>c\<in>set ?L. \<not> (generatedPos c < toVirtualPos 5 ?L \<and> toVirtualPos 5 ?L < generatedPos c + length' c)"
    unfolding v by (simp add: increasing_ledger)
  have "toOriginalPos (toVirtualPos 5 ?L) ?L = (5, False)"
    using h1 h2 by (rule toOriginalPos_toVirtualPos_roundtrip)
  then have "toOriginalPos 10 ?L = (5, False)" unfolding v .
  with h1 spans v show ?thesis by blast
qed

subsection \<open>The ledger invariant\<close>

text \<open>
  Claim C2. After every sequence of insert calls made at pairwise-distinct positions, the
  records are strictly ordered by \<^verbatim>\<open>originalPos\<close> ascending with no duplicate
  \<^verbatim>\<open>originalPos\<close>; the \<^verbatim>\<open>total\<close> of the record at index \<open>i\<close> is the sum of
  \<^verbatim>\<open>length\<close> over all records with index \<open>\<le> i\<close>; and the \<^verbatim>\<open>generatedPos\<close> of the
  record at index \<open>i\<close> is its \<^verbatim>\<open>originalPos\<close> plus the \<^verbatim>\<open>total\<close> of the record at index
  \<open>i - 1\<close> (plus \<open>0\<close> when \<open>i = 0\<close>).
\<close>

theorem insertCode_ledger_invariant:
  assumes "distinct (map fst calls)"
  shows "sorted_wrt (<) (map originalPos (insertCalls calls))
     \<and> distinct (map originalPos (insertCalls calls))
     \<and> (\<forall>i<length (insertCalls calls).
           total' (insertCalls calls ! i) = (\<Sum>j\<le>i. length' (insertCalls calls ! j))
         \<and> generatedPos (insertCalls calls ! i) =
             originalPos (insertCalls calls ! i)
             + (if i = 0 then 0 else total' (insertCalls calls ! (i - 1))))"
proof -
  have s: "sorted_wrt (<) (map originalPos (insertCalls calls))"
    using assms by (rule insertCalls_strict)
  then have d: "distinct (map originalPos (insertCalls calls))"
    by (simp add: strict_sorted_iff)
  have "\<forall>i<length (insertCalls calls).
           total' (insertCalls calls ! i) = (\<Sum>j\<le>i. length' (insertCalls calls ! j))
         \<and> generatedPos (insertCalls calls ! i) =
             originalPos (insertCalls calls ! i)
             + (if i = 0 then 0 else total' (insertCalls calls ! (i - 1)))"
    using consistent_from_nth[OF insertCalls_consistent, of _ calls] by simp
  with s d show ?thesis by blast
qed

theorem insertCode_ledger_invariant_witness:
  "distinct (map fst [(5 :: int, ''ab''), (2, ''xyz''), (9, ''q'')])
   \<and> map originalPos (insertCalls [(5, ''ab''), (2, ''xyz''), (9, ''q'')]) = [2, 5, 9]
   \<and> sorted_wrt (<) (map originalPos (insertCalls [(5, ''ab''), (2, ''xyz''), (9, ''q'')]))
   \<and> total' (insertCalls [(5, ''ab''), (2, ''xyz''), (9, ''q'')] ! 1)
        = (\<Sum>j\<le>1. length' (insertCalls [(5, ''ab''), (2, ''xyz''), (9, ''q'')] ! j))
   \<and> generatedPos (insertCalls [(5, ''ab''), (2, ''xyz''), (9, ''q'')] ! 1)
        = 5 + total' (insertCalls [(5, ''ab''), (2, ''xyz''), (9, ''q'')] ! 0)"
proof -
  let ?C = "[(5 :: int, ''ab''), (2, ''xyz''), (9, ''q'')]"
  have h: "distinct (map fst ?C)" by simp
  note inv = insertCode_ledger_invariant[OF h]
  have o: "map originalPos (insertCalls ?C) = [2, 5, 9]" by (simp add: sample_ledger)
  have s: "sorted_wrt (<) (map originalPos (insertCalls ?C))" using inv by blast
  have "(1 :: nat) < length (insertCalls ?C)" by (simp add: sample_ledger)
  with inv have "total' (insertCalls ?C ! 1) = (\<Sum>j\<le>1. length' (insertCalls ?C ! j))
     \<and> generatedPos (insertCalls ?C ! 1) = originalPos (insertCalls ?C ! 1)
             + (if (1 :: nat) = 0 then 0 else total' (insertCalls ?C ! (1 - 1)))"
    by blast
  moreover have "originalPos (insertCalls ?C ! 1) = 5" by (simp add: sample_ledger)
  ultimately have "total' (insertCalls ?C ! 1) = (\<Sum>j\<le>1. length' (insertCalls ?C ! j))"
    and "generatedPos (insertCalls ?C ! 1) = 5 + total' (insertCalls ?C ! 0)" by simp_all
  with h o s show ?thesis by blast
qed

subsection \<open>Positions inside and outside inserted spans\<close>

text \<open>
  Claim C3. For every ledger and every generated position \<open>q\<close> that lies strictly inside
  the span of an inserted record (strictly between its \<^verbatim>\<open>generatedPos\<close> and
  \<^verbatim>\<open>generatedPos + length\<close>), \<^verbatim>\<open>toOriginalPos\<close> returns that record's
  \<^verbatim>\<open>originalPos\<close> with \<open>inGenerated = True\<close>; for every other generated position it
  returns the position minus the accumulated lengths of the records whose
  \<^verbatim>\<open>generatedPos\<close> is \<open>\<le> q\<close>, with \<open>inGenerated = False\<close>.
\<close>

theorem toOriginalPos_spans:
  "(\<forall>c\<in>set (insertCalls calls).
      generatedPos c < q \<and> q < generatedPos c + length' c \<longrightarrow>
      toOriginalPos q (insertCalls calls) = (originalPos c, True))
   \<and> ((\<forall>c\<in>set (insertCalls calls). \<not> (generatedPos c < q \<and> q < generatedPos c + length' c)) \<longrightarrow>
      toOriginalPos q (insertCalls calls) =
        (q - sum_list (map length' (filter (\<lambda>c. generatedPos c \<le> q) (insertCalls calls))), False))"
proof (intro conjI ballI impI)
  fix c
  assume c: "c \<in> set (insertCalls calls)"
    and q: "generatedPos c < q \<and> q < generatedPos c + length' c"
  from c obtain j where j: "j < length (insertCalls calls)" and cj: "insertCalls calls ! j = c"
    by (auto simp: in_set_conv_nth)
  show "toOriginalPos q (insertCalls calls) = (originalPos c, True)"
    using inside_span[OF insertCalls_consistent insertCalls_sorted j, of q] q
    unfolding cj by blast
next
  assume out: "\<forall>c\<in>set (insertCalls calls). \<not> (generatedPos c < q \<and> q < generatedPos c + length' c)"
  then have "\<forall>j<length (insertCalls calls).
      \<not> (generatedPos (insertCalls calls ! j) < q
         \<and> q < generatedPos (insertCalls calls ! j) + length' (insertCalls calls ! j))"
    by simp
  then show "toOriginalPos q (insertCalls calls) =
        (q - sum_list (map length' (filter (\<lambda>c. generatedPos c \<le> q) (insertCalls calls))), False)"
    by (rule outside_spans[OF insertCalls_consistent insertCalls_sorted])
qed

theorem toOriginalPos_spans_witness:
  "toOriginalPos 9 (insertCalls [(5, ''ab''), (2, ''xyz''), (9, ''q'')]) = (5, True)
   \<and> toOriginalPos 10 (insertCalls [(5, ''ab''), (2, ''xyz''), (9, ''q'')]) = (5, False)
   \<and> toOriginalPos 8 (insertCalls [(5, ''ab''), (2, ''xyz''), (9, ''q'')]) = (3, False)"
proof -
  let ?L = "insertCalls [(5, ''ab''), (2, ''xyz''), (9, ''q'')]"
  let ?c = "\<lparr>generatedPos = 8, originalPos = 5, length' = 2, total' = 5, inserted = ''ab''\<rparr>"
  have c: "?c \<in> set ?L" by (simp add: sample_ledger)
  have inside: "generatedPos ?c < 9 \<and> 9 < generatedPos ?c + length' ?c" by simp
  have "toOriginalPos 9 ?L = (originalPos ?c, True)"
    using toOriginalPos_spans[of "[(5, ''ab''), (2, ''xyz''), (9, ''q'')]" 9] c inside by blast
  then have a: "toOriginalPos 9 ?L = (5, True)" by simp
  have out10: "\<forall>c\<in>set ?L. \<not> (generatedPos c < 10 \<and> 10 < generatedPos c + length' c)"
    by (simp add: sample_ledger)
  have "toOriginalPos 10 ?L = (10 - sum_list (map length' (filter (\<lambda>c. generatedPos c \<le> 10) ?L)), False)"
    using toOriginalPos_spans[of "[(5, ''ab''), (2, ''xyz''), (9, ''q'')]" 10] out10 by blast
  then have b: "toOriginalPos 10 ?L = (5, False)" by (simp add: sample_ledger)
  have out8: "\<forall>c\<in>set ?L. \<not> (generatedPos c < 8 \<and> 8 < generatedPos c + length' c)"
    by (simp add: sample_ledger)
  have "toOriginalPos 8 ?L = (8 - sum_list (map length' (filter (\<lambda>c. generatedPos c \<le> 8) ?L)), False)"
    using toOriginalPos_spans[of "[(5, ''ab''), (2, ''xyz''), (9, ''q'')]" 8] out8 by blast
  then have d: "toOriginalPos 8 ?L = (3, False)" by (simp add: sample_ledger)
  from a b d show ?thesis by blast
qed

lemma count_originalPos_insertCode:
  "count_list (map originalPos (insertCode cs pos ins)) pos
     = Suc (count_list (map originalPos cs) pos)"
proof -
  let ?ps = "map originalPos cs"
  have "count_list (takeWhile (\<lambda>p. p \<le> pos) ?ps) pos + count_list (dropWhile (\<lambda>p. p \<le> pos) ?ps) pos
          = count_list ?ps pos"
    by (metis count_list_append takeWhile_dropWhile_id)
  then show ?thesis by (simp add: map_originalPos_insertCode)
qed

subsection \<open>Inserting twice at one position\<close>

text \<open>
  Claim C5 says that a second insert at a position already recorded fails. It does not:
  \<^verbatim>\<open>insertCode\<close> has no failing branch, and the second record is placed after the first,
  so the ledger holds the position twice.
\<close>

theorem insertCode_same_position_counterexample:
  "insertCode (insertCode [] 5 ''ab'') 5 ''c'' =
     [\<lparr>generatedPos = 5, originalPos = 5, length' = 2, total' = 2, inserted = ''ab''\<rparr>,
      \<lparr>generatedPos = 7, originalPos = 5, length' = 1, total' = 3, inserted = ''c''\<rparr>]
   \<and> \<not> distinct (map originalPos (insertCode (insertCode [] 5 ''ab'') 5 ''c''))"
  by (simp add: insertCode_def shift_def)

text \<open>
  Claim C5, amended. For every ledger, calling insert with a position identical to one
  already recorded does not fail: it returns a ledger with one more record, in which that
  \<^verbatim>\<open>originalPos\<close> occurs more than once (at least twice, so the list of positions is not
  distinct); the records stay ordered by \<^verbatim>\<open>originalPos\<close> (not strictly) and the
  \<^verbatim>\<open>length\<close>, \<^verbatim>\<open>generatedPos\<close> and \<^verbatim>\<open>total\<close> bookkeeping stays consistent.
\<close>

theorem insertCode_same_position:
  assumes "pos \<in> originalPos ` set (insertCalls calls)"
  shows "length (insertCode (insertCalls calls) pos ins) = Suc (length (insertCalls calls))
     \<and> 2 \<le> count_list (map originalPos (insertCode (insertCalls calls) pos ins)) pos
     \<and> \<not> distinct (map originalPos (insertCode (insertCalls calls) pos ins))
     \<and> sorted (map originalPos (insertCode (insertCalls calls) pos ins))
     \<and> consistent_from 0 (insertCode (insertCalls calls) pos ins)"
proof -
  from assms have "pos \<in> set (map originalPos (insertCalls calls))" by simp
  then have "count_list (map originalPos (insertCalls calls)) pos \<noteq> 0"
    by (simp only: count_list_0_iff not_not)
  then have "2 \<le> count_list (map originalPos (insertCode (insertCalls calls) pos ins)) pos"
    by (simp add: count_originalPos_insertCode)
  with assms show ?thesis
    by (simp add: length_insertCode insertCode_duplicate insertCode_sorted insertCalls_sorted
        insertCode_consistent insertCalls_consistent)
qed

theorem insertCode_same_position_witness:
  "5 \<in> originalPos ` set (insertCalls [(5, ''ab''), (9, ''q'')])
   \<and> length (insertCode (insertCalls [(5, ''ab''), (9, ''q'')]) 5 ''c'') = 3
   \<and> 2 \<le> count_list (map originalPos (insertCode (insertCalls [(5, ''ab''), (9, ''q'')]) 5 ''c'')) 5
   \<and> \<not> distinct (map originalPos (insertCode (insertCalls [(5, ''ab''), (9, ''q'')]) 5 ''c''))
   \<and> sorted (map originalPos (insertCode (insertCalls [(5, ''ab''), (9, ''q'')]) 5 ''c''))
   \<and> map originalPos (insertCode (insertCalls [(5, ''ab''), (9, ''q'')]) 5 ''c'') = [5, 5, 9]"
proof -
  have l: "insertCalls [(5, ''ab''), (9, ''q'')] =
     [\<lparr>generatedPos = 5, originalPos = 5, length' = 2, total' = 2, inserted = ''ab''\<rparr>,
      \<lparr>generatedPos = 11, originalPos = 9, length' = 1, total' = 3, inserted = ''q''\<rparr>]"
    by (simp add: insertCalls_def insertCode_def Let_def)
  have h: "5 \<in> originalPos ` set (insertCalls [(5, ''ab''), (9, ''q'')])" by (simp add: l)
  have n: "Suc (length (insertCalls [(5, ''ab''), (9, ''q'')])) = 3" by (simp add: l)
  have m: "map originalPos (insertCode (insertCalls [(5, ''ab''), (9, ''q'')]) 5 ''c'') = [5, 5, 9]"
    by (simp add: l insertCode_def Let_def shift_def)
  note t = insertCode_same_position[OF h, of "''c''", unfolded n]
  from h t[THEN conjunct1] t[THEN conjunct2, THEN conjunct1]
    t[THEN conjunct2, THEN conjunct2, THEN conjunct1]
    t[THEN conjunct2, THEN conjunct2, THEN conjunct2, THEN conjunct1] m
  show ?thesis by (intro conjI)
qed

section \<open>Properties of the augmentor\<close>

lemma orElse_simps [simp]: "orElse None b = b" "orElse (Some r) b = Some r"
  by (simp_all add: orElse_def)

lemma generate_None [simp]: "generate None = None"
  by (simp add: generate_def)

lemma upserKitRouteFile_None:
  "\<not> isKitRouteFile ext basename \<or> getSource () = None \<Longrightarrow>
     upserKitRouteFile ext basename getSource surround = None"
  by (auto simp: upserKitRouteFile_def)

lemma upserKitServerHooksFile_None:
  "\<not> isServerHooksFile ext fileName basename hooksPath \<or> getSource () = None \<Longrightarrow>
     upserKitServerHooksFile ext fileName basename hooksPath getSource surround = None"
  by (auto simp: upserKitServerHooksFile_def)

lemma upserKitClientHooksFile_None:
  "\<not> isClientHooksFile ext fileName basename hooksPath \<or> getSource () = None \<Longrightarrow>
     upserKitClientHooksFile ext fileName basename hooksPath getSource surround = None"
  by (auto simp: upserKitClientHooksFile_def)

lemma upserKitParamsFile_None:
  "\<not> isParamsFile fileName basename paramsDir \<or> getSource () = None \<Longrightarrow>
     upserKitParamsFile ext fileName basename paramsDir getSource surround = None"
  by (auto simp: upserKitParamsFile_def)

lemma upserKitRouteFile_Some:
  "isKitRouteFile ext basename \<Longrightarrow> getSource () = Some source \<Longrightarrow>
     \<exists>r. upserKitRouteFile ext basename getSource surround = Some r"
  by (simp add: upserKitRouteFile_def Let_def)

lemma upserKitServerHooksFile_Some:
  "isServerHooksFile ext fileName basename hooksPath \<Longrightarrow> getSource () = Some source \<Longrightarrow>
     \<exists>r. upserKitServerHooksFile ext fileName basename hooksPath getSource surround = Some r"
  by (simp add: upserKitServerHooksFile_def Let_def)

lemma upserKitClientHooksFile_Some:
  "isClientHooksFile ext fileName basename hooksPath \<Longrightarrow> getSource () = Some source \<Longrightarrow>
     \<exists>r. upserKitClientHooksFile ext fileName basename hooksPath getSource surround = Some r"
  by (simp add: upserKitClientHooksFile_def Let_def)

lemma upsertKitFile_skips:
  assumes "\<not> isKitFile ext fileName settings \<or> getSource () = None"
  shows "upsertKitFile ext fileName settings getSource surround = None"
proof -
  let ?b = "path_basename ext fileName"
  from assms have
    "(\<not> isKitRouteFile ext ?b \<or> getSource () = None)
     \<and> (\<not> isServerHooksFile ext fileName ?b (serverHooksPath settings) \<or> getSource () = None)
     \<and> (\<not> isClientHooksFile ext fileName ?b (clientHooksPath settings) \<or> getSource () = None)
     \<and> (\<not> isParamsFile fileName ?b (paramsPath settings) \<or> getSource () = None)"
    by (auto simp: isKitFile_def Let_def)
  then show ?thesis
    by (simp add: upsertKitFile_def Let_def upserKitRouteFile_None upserKitServerHooksFile_None
        upserKitClientHooksFile_None upserKitParamsFile_None)
qed

subsection \<open>No match and no source\<close>

text \<open>
  Claim C7. For every file path that matches none of the four special-file patterns, and
  for every matched path whose parsed source cannot be supplied, the augmentor returns the
  non-error ``no match'' result (\<^verbatim>\<open>undefined\<close>, here \<open>None\<close>) with no insertions recorded,
  and does not fail: no function on this path has a failing branch, and the result
  \<open>None\<close> carries no ledger.
\<close>

theorem upsertKitFile_no_match:
  assumes "\<not> isKitFile ext fileName settings \<or> getSource () = None"
  shows "upsertKitFile ext fileName settings getSource surround = None"
  using assms by (rule upsertKitFile_skips)

theorem upsertKitFile_no_match_witness:
  "\<not> isKitFile posix ''src/lib/util.ts'' defaults
   \<and> upsertKitFile posix ''src/lib/util.ts'' defaults (\<lambda>_. Some load_page) (\<lambda>t. t) = None
   \<and> isKitFile posix ''src/routes/+page.ts'' defaults
   \<and> upsertKitFile posix ''src/routes/+page.ts'' defaults (\<lambda>_. None) (\<lambda>t. t) = None"
proof -
  have n: "\<not> isKitFile posix ''src/lib/util.ts'' defaults" by code_simp
  have k: "isKitFile posix ''src/routes/+page.ts'' defaults" by code_simp
  have a: "upsertKitFile posix ''src/lib/util.ts'' defaults (\<lambda>_. Some load_page) (\<lambda>t. t) = None"
    using n by (intro upsertKitFile_no_match) simp
  have b: "upsertKitFile posix ''src/routes/+page.ts'' defaults (\<lambda>_ :: unit. None :: SourceFile option) (\<lambda>t. t) = None"
    by (intro upsertKitFile_no_match) simp
  from n a k b show ?thesis by blast
qed

subsection \<open>Priority of the strategies\<close>

text \<open>
  Claim C6. For every file path and configuration, the four augmentation strategies are
  tried in the fixed order route, server hooks, client hooks, params, and the result is
  that of the first strategy whose pattern matches and of no other; in particular a path
  that matches both the route pattern and a configured hooks suffix is augmented as a
  route file.
\<close>

theorem upsertKitFile_priority:
  "upsertKitFile ext fileName settings getSource surround =
     (if isKitRouteFile ext (path_basename ext fileName)
      then generate (upserKitRouteFile ext (path_basename ext fileName) getSource surround)
      else if isServerHooksFile ext fileName (path_basename ext fileName) (serverHooksPath settings)
      then generate (upserKitServerHooksFile ext fileName (path_basename ext fileName)
                       (serverHooksPath settings) getSource surround)
      else if isClientHooksFile ext fileName (path_basename ext fileName) (clientHooksPath settings)
      then generate (upserKitClientHooksFile ext fileName (path_basename ext fileName)
                       (clientHooksPath settings) getSource surround)
      else generate (upserKitParamsFile ext fileName (path_basename ext fileName)
                       (paramsPath settings) getSource surround))
   \<and> (isKitRouteFile ext (path_basename ext fileName)
        \<and> (isServerHooksFile ext fileName (path_basename ext fileName) (serverHooksPath settings)
           \<or> isClientHooksFile ext fileName (path_basename ext fileName) (clientHooksPath settings))
      \<longrightarrow> upsertKitFile ext fileName settings getSource surround =
            generate (upserKitRouteFile ext (path_basename ext fileName) getSource surround))"
proof -
  let ?b = "path_basename ext fileName"
  have chain: "upsertKitFile ext fileName settings getSource surround =
     (if isKitRouteFile ext ?b
      then generate (upserKitRouteFile ext ?b getSource surround)
      else if isServerHooksFile ext fileName ?b (serverHooksPath settings)
      then generate (upserKitServerHooksFile ext fileName ?b (serverHooksPath settings) getSource surround)
      else if isClientHooksFile ext fileName ?b (clientHooksPath settings)
      then generate (upserKitClientHooksFile ext fileName ?b (clientHooksPath settings) getSource surround)
      else generate (upserKitParamsFile ext fileName ?b (paramsPath settings) getSource surround))"
  proof (cases "getSource ()")
    case None
    then show ?thesis
      by (simp add: upsertKitFile_def Let_def upserKitRouteFile_None upserKitServerHooksFile_None
          upserKitClientHooksFile_None upserKitParamsFile_None)
  next
    case (Some source)
    show ?thesis
    proof (cases "isKitRouteFile ext ?b")
      case True
      with Some upserKitRouteFile_Some[of ext ?b getSource source surround] show ?thesis
        by (auto simp: upsertKitFile_def Let_def)
    next
      case nr: False
      show ?thesis
      proof (cases "isServerHooksFile ext fileName ?b (serverHooksPath settings)")
        case True
        with nr Some upserKitServerHooksFile_Some[of ext fileName ?b "serverHooksPath settings" getSource source surround] show ?thesis
          by (auto simp: upsertKitFile_def Let_def upserKitRouteFile_None)
      next
        case ns: False
        show ?thesis
        proof (cases "isClientHooksFile ext fileName ?b (clientHooksPath settings)")
          case True
          with nr ns Some upserKitClientHooksFile_Some[of ext fileName ?b "clientHooksPath settings" getSource source surround] show ?thesis
            by (auto simp: upsertKitFile_def Let_def upserKitRouteFile_None upserKitServerHooksFile_None)
        next
          case False
          with nr ns show ?thesis
            by (simp add: upsertKitFile_def Let_def upserKitRouteFile_None upserKitServerHooksFile_None
                upserKitClientHooksFile_None)
        qed
      qed
    qed
  qed
  then show ?thesis by simp
qed

theorem upsertKitFile_priority_witness:
  "isKitRouteFile posix (path_basename posix ''src/routes/+page.ts'')
   \<and> isServerHooksFile posix ''src/routes/+page.ts'' (path_basename posix ''src/routes/+page.ts'')
        (serverHooksPath (defaults\<lparr>serverHooksPath := ''src/routes/+page''\<rparr>))
   \<and> map_option (map inserted \<circ> snd)
        (upsertKitFile posix ''src/routes/+page.ts'' (defaults\<lparr>serverHooksPath := ''src/routes/+page''\<rparr>)
           (\<lambda>_. Some load_and_handle) (\<lambda>t. t))
       = Some ['': import('./$types.js').PageLoadEvent'']
   \<and> map_option (map inserted \<circ> fst)
        (upserKitServerHooksFile posix ''src/routes/+page.ts'' ''+page.ts'' ''src/routes/+page''
           (\<lambda>_. Some load_and_handle) (\<lambda>t. t))
       = Some ['': Parameters<import('@sveltejs/kit').Handle>[0]'',
               '': ReturnType<import('@sveltejs/kit').Handle> '']"
proof -
  let ?S = "defaults\<lparr>serverHooksPath := ''src/routes/+page''\<rparr>"
  let ?F = "''src/routes/+page.ts''"
  have r: "isKitRouteFile posix (path_basename posix ?F)" by code_simp
  have h: "isServerHooksFile posix ?F (path_basename posix ?F) (serverHooksPath ?S)" by code_simp
  have "upsertKitFile posix ?F ?S (\<lambda>_. Some load_and_handle) (\<lambda>t. t) =
          generate (upserKitRouteFile posix (path_basename posix ?F) (\<lambda>_. Some load_and_handle) (\<lambda>t. t))"
    using upsertKitFile_priority[of posix ?F ?S "\<lambda>_. Some load_and_handle" "\<lambda>t. t"] r h by blast
  moreover have "map_option (map inserted \<circ> snd)
       (generate (upserKitRouteFile posix (path_basename posix ?F) (\<lambda>_. Some load_and_handle) (\<lambda>t. t)))
       = Some ['': import('./$types.js').PageLoadEvent'']"
    by code_simp
  ultimately have u: "map_option (map inserted \<circ> snd)
        (upsertKitFile posix ?F ?S (\<lambda>_. Some load_and_handle) (\<lambda>t. t))
       = Some ['': import('./$types.js').PageLoadEvent'']" by simp
  have v: "map_option (map inserted \<circ> fst)
        (upserKitServerHooksFile posix ?F ''+page.ts'' ''src/routes/+page''
           (\<lambda>_. Some load_and_handle) (\<lambda>t. t))
       = Some ['': Parameters<import('@sveltejs/kit').Handle>[0]'',
               '': ReturnType<import('@sveltejs/kit').Handle> '']"
    by code_simp
  from r h u v show ?thesis by blast
qed

subsection \<open>The \<^verbatim>\<open>load\<close> export of a route file\<close>

lemma insertCode_Nil:
  "insertCode [] pos ins =
     [\<lparr>generatedPos = pos, originalPos = pos, length' = int (length ins),
       total' = int (length ins), inserted = ins\<rparr>]"
  by (simp add: insertCode_def Let_def)

lemma addTypeToVariable_absent:
  "exports name = None \<Longrightarrow> addTypeToVariable exports surround addedCode name type = addedCode"
  by (simp add: addTypeToVariable_def)

lemma addTypeToFunction_absent:
  "exports name = None \<Longrightarrow> addTypeToFunction exports surround addedCode name type returnType = addedCode"
  by (simp add: addTypeToFunction_def)

text \<open>
  Claim C4 says that an untyped single-parameter \<^verbatim>\<open>load\<close> function gets two insertions,
  one after the parameter and one before the body. \<^verbatim>\<open>load\<close> does not go through
  \<^verbatim>\<open>addTypeToFunction\<close>: the route strategy annotates its parameter only, so the ledger
  of this route file has one record and not two.
\<close>

theorem upserKitRouteFile_load_counterexample:
  "map_option (map originalPos \<circ> snd)
     (upsertKitFile posix ''src/routes/+page.ts'' defaults (\<lambda>_. Some load_page) (\<lambda>t. t)) = Some [22]
   \<and> map_option (length \<circ> snd)
     (upsertKitFile posix ''src/routes/+page.ts'' defaults (\<lambda>_. Some load_page) (\<lambda>t. t)) \<noteq> Some 2"
  by code_simp

text \<open>A route file that exports nothing else of interest: its ledger is the record for
  \<^verbatim>\<open>load\<close>, or empty.\<close>

lemma upserKitRouteFile_load_alone:
  assumes "isKitRouteFile ext basename" and "getSource () = Some source"
    and "findExports ext source (str_endsWith basename ''.ts'') ''load''
           = Some (Function node hasTypeDefinition)"
    and "\<forall>name\<in>set [''actions'', ''prerender'', ''trailingSlash'', ''ssr'', ''csr'',
                      ''GET'', ''PUT'', ''POST'', ''PATCH'', ''DELETE'', ''OPTIONS''].
           findExports ext source (str_endsWith basename ''.ts'') name = None"
  shows "upserKitRouteFile ext basename getSource surround =
     Some (if length (parameters node) = 1 \<and> \<not> hasTypeDefinition
           then (let pos = parameters node ! 0;
                     inserted = surround ('': import('./$types.js').''
                        @ (if str_includes basename ''layout'' then ''Layout'' else ''Page'')
                        @ (if str_includes basename ''server'' then ''Server'' else [])
                        @ ''LoadEvent'')
                 in [\<lparr>generatedPos = pos, originalPos = pos, length' = int (length inserted),
                      total' = int (length inserted), inserted = inserted\<rparr>])
           else [],
           getFullText ext source)"
  using assms
  by (simp add: upserKitRouteFile_def Let_def insertCode_Nil addTypeToVariable_absent
      addTypeToFunction_absent)

text \<open>
  Each step of the route strategy after \<^verbatim>\<open>load\<close> makes a fixed list of insert calls,
  whatever the ledger holds when it starts, and reads only the export of its own name.
\<close>

lemma insertCalls_insertMore: "insertCalls calls = insertMore [] calls"
  by (simp add: insertCalls_def insertMore_def)

lemma insertMore_append: "insertMore (insertMore cs xs) ys = insertMore cs (xs @ ys)"
  by (simp add: insertMore_def)

lemma insertMore_Nil: "insertMore cs [] = cs"
  by (simp add: insertMore_def)

lemma insertMore_single: "insertCode cs pos ins = insertMore cs [(pos, ins)]"
  by (simp add: insertMore_def)

lemma addTypeToVariable_calls:
  "\<exists>calls. \<forall>cs. addTypeToVariable exports surround cs name type = insertMore cs calls"
proof (cases "\<exists>node. exports name = Some (Var node False) \<and> initializer node \<noteq> None")
  case True
  then obtain node where "exports name = Some (Var node False)" "initializer node \<noteq> None" by blast
  then have "\<forall>cs. addTypeToVariable exports surround cs name type
               = insertMore cs [(name_end node, surround ('' : '' @ type))]"
    by (simp add: addTypeToVariable_def insertMore_def)
  then show ?thesis by blast
next
  case False
  then have "\<forall>cs. addTypeToVariable exports surround cs name type = insertMore cs []"
    by (auto simp: addTypeToVariable_def insertMore_def split: option.splits export.splits)
  then show ?thesis by blast
qed

lemma addTypeToFunction_calls:
  "\<exists>calls. \<forall>cs. addTypeToFunction exports surround cs name type returnType = insertMore cs calls"
proof (cases "exports name")
  case None
  then have "\<forall>cs. addTypeToFunction exports surround cs name type returnType = insertMore cs []"
    by (simp add: addTypeToFunction_def insertMore_def)
  then show ?thesis by blast
next
  case (Some e)
  show ?thesis
  proof (cases e)
    case (Var node h)
    with Some have "\<forall>cs. addTypeToFunction exports surround cs name type returnType = insertMore cs []"
      by (simp add: addTypeToFunction_def insertMore_def)
    then show ?thesis by blast
  next
    case (Function node h)
    show ?thesis
    proof (cases "length (parameters node) = 1 \<and> \<not> h")
      case False
      with Some Function
      have "\<forall>cs. addTypeToFunction exports surround cs name type returnType = insertMore cs []"
        by (auto simp: addTypeToFunction_def insertMore_def)
      then show ?thesis by blast
    next
      case True
      let ?p = "(parameters node ! 0, surround
                    (if falsy returnType then '': Parameters<'' @ type @ ''>[0]'' else '': '' @ type))"
      show ?thesis
      proof (cases "body node")
        case None
        with Some Function True
        have "\<forall>cs. addTypeToFunction exports surround cs name type returnType = insertMore cs [?p]"
          by (simp add: addTypeToFunction_def insertMore_def Let_def)
        then show ?thesis by blast
      next
        case (Some bodyStart)
        show ?thesis
        proof (cases "has_type node")
          case True
          with \<open>exports name = Some e\<close> Function \<open>length (parameters node) = 1 \<and> \<not> h\<close> Some
          have "\<forall>cs. addTypeToFunction exports surround cs name type returnType = insertMore cs [?p]"
            by (simp add: addTypeToFunction_def insertMore_def Let_def)
          then show ?thesis by blast
        next
          case False
          let ?r = "((case kind node of ArrowFunction arrowStart \<Rightarrow> arrowStart
                                          | OtherFunction \<Rightarrow> bodyStart),
                     surround (case returnType of
                                  None \<Rightarrow> '': ReturnType<'' @ type @ ''> ''
                                | Some t \<Rightarrow> if t = [] then '': ReturnType<'' @ type @ ''> ''
                                            else '': '' @ t @ '' ''))"
          from \<open>exports name = Some e\<close> Function \<open>length (parameters node) = 1 \<and> \<not> h\<close> Some False
          have "\<forall>cs. addTypeToFunction exports surround cs name type returnType = insertMore cs [?p, ?r]"
            by (simp add: addTypeToFunction_def insertMore_def Let_def)
          then show ?thesis by blast
        qed
      qed
    qed
  qed
qed

lemma addTypeToFunction_fold_calls:
  "\<exists>calls. \<forall>cs. foldl (\<lambda>addedCode name. addTypeToFunction exports surround addedCode name type returnType)
                    cs names = insertMore cs calls"
proof (induction names)
  case Nil
  have "\<forall>cs. foldl (\<lambda>addedCode name. addTypeToFunction exports surround addedCode name type returnType)
                    cs [] = insertMore cs []"
    by (simp add: insertMore_def)
  then show ?case by blast
next
  case (Cons name names)
  then obtain ys where ys: "\<forall>cs. foldl (\<lambda>addedCode name. addTypeToFunction exports surround addedCode name type returnType)
                    cs names = insertMore cs ys" by blast
  obtain xs where xs: "\<forall>cs. addTypeToFunction exports surround cs name type returnType = insertMore cs xs"
    using addTypeToFunction_calls[of exports surround name type returnType] by blast
  have "\<forall>cs. foldl (\<lambda>addedCode name. addTypeToFunction exports surround addedCode name type returnType)
                    cs (name # names) = insertMore cs (xs @ ys)"
    by (simp add: xs ys insertMore_append)
  then show ?case by blast
qed

lemma addTypeToVariable_exports_cong:
  "exports' name = exports name \<Longrightarrow>
     addTypeToVariable exports' surround cs name type = addTypeToVariable exports surround cs name type"
  by (simp add: addTypeToVariable_def)

lemma addTypeToFunction_exports_cong:
  "exports' name = exports name \<Longrightarrow>
     addTypeToFunction exports' surround cs name type returnType
       = addTypeToFunction exports surround cs name type returnType"
  by (simp add: addTypeToFunction_def)

text \<open>
  Claim C4, amended. For every route file whose \<^verbatim>\<open>load\<close> export is a function, the
  augmentor makes exactly one insertion for \<^verbatim>\<open>load\<close> when the function has exactly one
  parameter and no type definition: the \<^verbatim>\<open>LoadEvent\<close> annotation at the end of the
  parameter, whether or not a return type or a body is present. It makes no insertion for
  \<^verbatim>\<open>load\<close> otherwise. Whatever else the file exports, its ledger is the one built by
  that insert call (or by none) followed by the insert calls that the same file gets
  without its \<^verbatim>\<open>load\<close> export.
\<close>

theorem upserKitRouteFile_load:
  assumes route: "isKitRouteFile ext basename" and src: "getSource () = Some source"
    and load: "findExports ext source (str_endsWith basename ''.ts'') ''load''
                 = Some (Function node hasTypeDefinition)"
  shows "\<exists>others.
      upserKitRouteFile
        (ext\<lparr>findExports := \<lambda>src isTsFile. (findExports ext src isTsFile)(''load'' := None)\<rparr>)
        basename getSource surround
        = Some (insertCalls others, getFullText ext source)
    \<and> upserKitRouteFile ext basename getSource surround
        = Some (insertCalls
                  ((if length (parameters node) = 1 \<and> \<not> hasTypeDefinition
                    then [(parameters node ! 0,
                           surround ('': import('./$types.js').''
                             @ (if str_includes basename ''layout'' then ''Layout'' else ''Page'')
                             @ (if str_includes basename ''server'' then ''Server'' else [])
                             @ ''LoadEvent''))]
                    else []) @ others),
                getFullText ext source)"
proof -
  let ?E = "findExports ext source (str_endsWith basename ''.ts'')"
  let ?E' = "?E(''load'' := None)"
  let ?ext' = "ext\<lparr>findExports := \<lambda>src isTsFile. (findExports ext src isTsFile)(''load'' := None)\<rparr>"
  let ?first = "(if length (parameters node) = 1 \<and> \<not> hasTypeDefinition
                    then [(parameters node ! 0,
                           surround ('': import('./$types.js').''
                             @ (if str_includes basename ''layout'' then ''Layout'' else ''Page'')
                             @ (if str_includes basename ''server'' then ''Server'' else [])
                             @ ''LoadEvent''))]
                    else [])"
  define rest where "rest = (\<lambda>exports addedCode1.
    (let addedCode2 =
                 (case exports ''actions'' of
                    Some (Var node hasTypeDefinition) \<Rightarrow>
                      (case initializer node of
                         Some initializerEnd \<Rightarrow>
                           (if \<not> hasTypeDefinition
                            then insertCode addedCode1 initializerEnd
                                   (surround '' satisfies import('./$types.js').Actions'')
                            else addedCode1)
                       | None \<Rightarrow> addedCode1)
                  | _ \<Rightarrow> addedCode1);
               addedCode3 = addTypeToVariable exports surround addedCode2 ''prerender''
                              (''boolean | '' @ [CHR 0x27] @ ''auto'' @ [CHR 0x27]);
               addedCode4 = addTypeToVariable exports surround addedCode3 ''trailingSlash''
                              ([CHR 0x27] @ ''never'' @ [CHR 0x27] @ '' | '' @ [CHR 0x27] @ ''always''
                                 @ [CHR 0x27] @ '' | '' @ [CHR 0x27] @ ''ignore'' @ [CHR 0x27]);
               addedCode5 = addTypeToVariable exports surround addedCode4 ''ssr'' ''boolean'';
               addedCode6 = addTypeToVariable exports surround addedCode5 ''csr'' ''boolean'';
               insertApiMethod = (\<lambda>addedCode name.
                 addTypeToFunction exports surround addedCode name
                   ''import('./$types.js').RequestEvent'' (Some ''Response | Promise<Response>''))
     in foldl insertApiMethod addedCode6
                              [''GET'', ''PUT'', ''POST'', ''PATCH'', ''DELETE'', ''OPTIONS'']))"
  let ?loaded = "(case ?E ''load'' of
                    Some (Function node hasTypeDefinition) \<Rightarrow>
                      (if length (parameters node) = 1 \<and> \<not> hasTypeDefinition
                       then insertCode [] (parameters node ! 0)
                              (surround ('': import('./$types.js').''
                                 @ (if str_includes basename ''layout'' then ''Layout'' else ''Page'')
                                 @ (if str_includes basename ''server'' then ''Server'' else [])
                                 @ ''LoadEvent''))
                       else [])
                  | _ \<Rightarrow> [])"
  have unfolded: "upserKitRouteFile ext basename getSource surround
      = Some (rest ?E ?loaded, getFullText ext source)"
    using route src
    by (simp add: upserKitRouteFile_def rest_def Let_def)
  have loaded: "?loaded = insertMore [] ?first"
    using load by (simp add: insertMore_def)
  have with_load: "upserKitRouteFile ext basename getSource surround
      = Some (rest ?E (insertMore [] ?first), getFullText ext source)"
    by (simp only: unfolded loaded)
  have "isKitRouteFile ?ext' basename = isKitRouteFile ext basename"
    by (simp add: isKitRouteFile_def)
  with route have route': "isKitRouteFile ?ext' basename" by simp
  let ?E'' = "findExports ?ext' source (str_endsWith basename ''.ts'')"
  let ?loaded' = "(case ?E'' ''load'' of
                    Some (Function node hasTypeDefinition) \<Rightarrow>
                      (if length (parameters node) = 1 \<and> \<not> hasTypeDefinition
                       then insertCode [] (parameters node ! 0)
                              (surround ('': import('./$types.js').''
                                 @ (if str_includes basename ''layout'' then ''Layout'' else ''Page'')
                                 @ (if str_includes basename ''server'' then ''Server'' else [])
                                 @ ''LoadEvent''))
                       else [])
                  | _ \<Rightarrow> [])"
  have unfolded': "upserKitRouteFile ?ext' basename getSource surround
      = Some (rest ?E'' ?loaded', getFullText ?ext' source)"
    using route' src
    by (simp only: upserKitRouteFile_def rest_def Let_def not_True_eq_False if_False option.case)
  have E'': "?E'' = ?E'" by simp
  have loaded': "?loaded' = []" by simp
  have text': "getFullText ?ext' source = getFullText ext source" by simp
  have without_load: "upserKitRouteFile ?ext' basename getSource surround
      = Some (rest ?E' [], getFullText ext source)"
    by (simp only: unfolded' loaded') (simp only: E'' text')
  have same: "rest ?E' cs = rest ?E cs" for cs
    unfolding rest_def Let_def
    by (simp add: addTypeToVariable_exports_cong[of ?E' _ ?E]
        addTypeToFunction_exports_cong[of ?E' _ ?E])
  obtain a where a: "\<forall>cs. (case ?E ''actions'' of
                    Some (Var node hasTypeDefinition) \<Rightarrow>
                      (case initializer node of
                         Some initializerEnd \<Rightarrow>
                           (if \<not> hasTypeDefinition
                            then insertCode cs initializerEnd
                                   (surround '' satisfies import('./$types.js').Actions'')
                            else cs)
                       | None \<Rightarrow> cs)
                  | _ \<Rightarrow> cs) = insertMore cs a"
  proof (cases "\<exists>node e. ?E ''actions'' = Some (Var node False) \<and> initializer node = Some e")
    case True
    then obtain node e where "?E ''actions'' = Some (Var node False)" "initializer node = Some e"
      by blast
    then have "\<forall>cs. (case ?E ''actions'' of
                    Some (Var node hasTypeDefinition) \<Rightarrow>
                      (case initializer node of
                         Some initializerEnd \<Rightarrow>
                           (if \<not> hasTypeDefinition
                            then insertCode cs initializerEnd
                                   (surround '' satisfies import('./$types.js').Actions'')
                            else cs)
                       | None \<Rightarrow> cs)
                  | _ \<Rightarrow> cs)
         = insertMore cs [(e, surround '' satisfies import('./$types.js').Actions'')]"
      by (simp add: insertMore_def)
    then show ?thesis by (rule that)
  next
    case False
    then have "\<forall>cs. (case ?E ''actions'' of
                    Some (Var node hasTypeDefinition) \<Rightarrow>
                      (case initializer node of
                         Some initializerEnd \<Rightarrow>
                           (if \<not> hasTypeDefinition
                            then insertCode cs initializerEnd
                                   (surround '' satisfies import('./$types.js').Actions'')
                            else cs)
                       | None \<Rightarrow> cs)
                  | _ \<Rightarrow> cs)
         = insertMore cs []"
      by (auto simp: insertMore_def split: option.splits export.splits)
    then show ?thesis by (rule that)
  qed
  obtain v1 where v1: "\<forall>cs. addTypeToVariable ?E surround cs ''prerender''
                              (''boolean | '' @ [CHR 0x27] @ ''auto'' @ [CHR 0x27]) = insertMore cs v1"
    using addTypeToVariable_calls by blast
  obtain v2 where v2: "\<forall>cs. addTypeToVariable ?E surround cs ''trailingSlash''
                              ([CHR 0x27] @ ''never'' @ [CHR 0x27] @ '' | '' @ [CHR 0x27] @ ''always''
                                 @ [CHR 0x27] @ '' | '' @ [CHR 0x27] @ ''ignore'' @ [CHR 0x27])
                         = insertMore cs v2"
    using addTypeToVariable_calls by blast
  obtain v3 where v3: "\<forall>cs. addTypeToVariable ?E surround cs ''ssr'' ''boolean'' = insertMore cs v3"
    using addTypeToVariable_calls by blast
  obtain v4 where v4: "\<forall>cs. addTypeToVariable ?E surround cs ''csr'' ''boolean'' = insertMore cs v4"
    using addTypeToVariable_calls by blast
  obtain f where f: "\<forall>cs. foldl (\<lambda>addedCode name.
                 addTypeToFunction ?E surround addedCode name
                   ''import('./$types.js').RequestEvent'' (Some ''Response | Promise<Response>'')) cs
                  [''GET'', ''PUT'', ''POST'', ''PATCH'', ''DELETE'', ''OPTIONS''] = insertMore cs f"
    using addTypeToFunction_fold_calls by blast
  have calls: "rest ?E cs = insertMore cs (a @ v1 @ v2 @ v3 @ v4 @ f)" for cs
    unfolding rest_def Let_def
    by (simp only: a v1 v2 v3 v4 f insertMore_append append_assoc)
  let ?others = "a @ v1 @ v2 @ v3 @ v4 @ f"
  have "upserKitRouteFile ?ext' basename getSource surround
          = Some (insertCalls ?others, getFullText ext source)"
    by (simp only: without_load same calls insertCalls_insertMore)
  moreover have "upserKitRouteFile ext basename getSource surround
          = Some (insertCalls (?first @ ?others), getFullText ext source)"
    by (simp only: with_load calls insertCalls_insertMore insertMore_append)
  ultimately show ?thesis by blast
qed

theorem upserKitRouteFile_load_witness:
  "isKitRouteFile posix ''+page.server.ts''
   \<and> map_of (exported load_and_actions) ''load''
       = Some (Function \<lparr>kind = OtherFunction, parameters = [22], has_type = False, body = Some 24\<rparr> False)
   \<and> (\<exists>others.
         map (\<lambda>c. (originalPos c, inserted c)) (insertCalls others)
           = [(63, '' satisfies import('./$types.js').Actions'')]
       \<and> map (\<lambda>c. (originalPos c, inserted c))
             (insertCalls ((22, '': import('./$types.js').PageServerLoadEvent'') # others))
           = [(22, '': import('./$types.js').PageServerLoadEvent''),
              (63, '' satisfies import('./$types.js').Actions'')]
       \<and> upserKitRouteFile posix ''+page.server.ts'' (\<lambda>_. Some load_and_actions) (\<lambda>t. t)
           = Some (insertCalls ((22, '': import('./$types.js').PageServerLoadEvent'') # others),
                   ''export function load(e) { return 1 }; export const actions = {}''))"
proof -
  let ?node = "\<lparr>kind = OtherFunction, parameters = [22], has_type = False, body = Some 24\<rparr>"
  let ?ext' = "posix\<lparr>findExports := \<lambda>src isTsFile. (findExports posix src isTsFile)(''load'' := None)\<rparr>"
  let ?text = "''export function load(e) { return 1 }; export const actions = {}''"
  have r: "isKitRouteFile posix ''+page.server.ts''" by code_simp
  have s: "(\<lambda>_ :: unit. Some load_and_actions) () = Some load_and_actions" by simp
  have l: "findExports posix load_and_actions (str_endsWith ''+page.server.ts'' ''.ts'') ''load''
             = Some (Function ?node False)"
    by (simp add: posix_def load_and_actions_def)
  have m: "map_of (exported load_and_actions) ''load'' = Some (Function ?node False)"
    by (simp add: load_and_actions_def)
  have without: "map_option (map (\<lambda>c. (originalPos c, inserted c)) \<circ> fst)
        (upserKitRouteFile ?ext' ''+page.server.ts'' (\<lambda>_. Some load_and_actions) (\<lambda>t. t))
      = Some [(63, '' satisfies import('./$types.js').Actions'')]"
    by code_simp
  have "with": "map_option (map (\<lambda>c. (originalPos c, inserted c)) \<circ> fst)
        (upserKitRouteFile posix ''+page.server.ts'' (\<lambda>_. Some load_and_actions) (\<lambda>t. t))
      = Some [(22, '': import('./$types.js').PageServerLoadEvent''),
              (63, '' satisfies import('./$types.js').Actions'')]"
    by code_simp
  have first: "(if length (parameters ?node) = 1 \<and> \<not> False
                then [(parameters ?node ! 0,
                       (\<lambda>t. t) ('': import('./$types.js').''
                         @ (if str_includes ''+page.server.ts'' ''layout'' then ''Layout'' else ''Page'')
                         @ (if str_includes ''+page.server.ts'' ''server'' then ''Server'' else [])
                         @ ''LoadEvent''))]
                else [])
               = [(22, '': import('./$types.js').PageServerLoadEvent'')]"
    by code_simp
  have t: "getFullText posix load_and_actions = ?text"
    by (simp add: posix_def load_and_actions_def)
  from upserKitRouteFile_load[OF r s l, of "\<lambda>t. t"] obtain others where
    o1: "upserKitRouteFile ?ext' ''+page.server.ts'' (\<lambda>_. Some load_and_actions) (\<lambda>t. t)
           = Some (insertCalls others, getFullText posix load_and_actions)"
    and o2: "upserKitRouteFile posix ''+page.server.ts'' (\<lambda>_. Some load_and_actions) (\<lambda>t. t)
           = Some (insertCalls ((22, '': import('./$types.js').PageServerLoadEvent'') # others),
                   getFullText posix load_and_actions)"
    unfolding first by (elim exE conjE) simp
  from without have a: "map (\<lambda>c. (originalPos c, inserted c)) (insertCalls others)
           = [(63, '' satisfies import('./$types.js').Actions'')]"
    unfolding o1 by simp
  from "with" have b: "map (\<lambda>c. (originalPos c, inserted c))
             (insertCalls ((22, '': import('./$types.js').PageServerLoadEvent'') # others))
           = [(22, '': import('./$types.js').PageServerLoadEvent''),
              (63, '' satisfies import('./$types.js').Actions'')]"
    unfolding o2 by simp
  from a b o2[unfolded t] have "\<exists>others.
         map (\<lambda>c. (originalPos c, inserted c)) (insertCalls others)
           = [(63, '' satisfies import('./$types.js').Actions'')]
       \<and> map (\<lambda>c. (originalPos c, inserted c))
             (insertCalls ((22, '': import('./$types.js').PageServerLoadEvent'') # others))
           = [(22, '': import('./$types.js').PageServerLoadEvent''),
              (63, '' satisfies import('./$types.js').Actions'')]
       \<and> upserKitRouteFile posix ''+page.server.ts'' (\<lambda>_. Some load_and_actions) (\<lambda>t. t)
           = Some (insertCalls ((22, '': import('./$types.js').PageServerLoadEvent'') # others), ?text)"
    by (intro exI[of _ others] conjI)
  with r m show ?thesis by (intro conjI)
qed

section \<open>Properties of the transpiler\<close>

subsection \<open>Exports under another name\<close>

lemma bind_Inr_iff: "bind m f = Inr y \<longleftrightarrow> (\<exists>x. m = Inr x \<and> f x = Inr y)"
  by (cases m) auto

lemma bind_Inl_iff: "bind m f = Inl e \<longleftrightarrow> m = Inl e \<or> (\<exists>x. m = Inr x \<and> f x = Inl e)"
  by (cases m) auto

lemma map_of_map_set: "map_of (map_set m k v) k' = (if k' = k then Some v else map_of m k')"
  by (induction m) auto

lemma addExport_other:
  "addExport (Some n) target entries = Inr entries' \<Longrightarrow> n \<noteq> Identifier a \<Longrightarrow>
     map_of entries' a = map_of entries a"
  by (auto simp: addExport_def map_of_map_set split: binding_name.splits option.splits)

lemma addExport_alias:
  "addExport (Some (Identifier a)) (Some (Identifier b)) entries = Inr entries' \<Longrightarrow>
     map_of entries' a = Some (Some b)"
  by (auto simp: addExport_def map_of_map_set)

lemma elements_loop_other:
  "elements_loop original astOffset pos elements st = Inr st' \<Longrightarrow>
     Identifier a \<notin> element_source ` set elements \<Longrightarrow>
     map_of (exportedNames st') a = map_of (exportedNames st) a"
proof (induction elements arbitrary: st)
  case Nil
  then show ?case by simp
next
  case (Cons element rest)
  obtain source name where element: "element = (source, name)" by (cases element)
  from Cons.prems(1) obtain names where
    add: "(case source of Some s \<Rightarrow> addExport (Some s) (Some name) (exportedNames st)
           | None \<Rightarrow> addExport (Some name) None (exportedNames st)) = Inr names"
    and rest: "elements_loop original astOffset pos rest
        (st\<lparr>exportedNames := names, str := removeExport original astOffset pos (str st)\<rparr>) = Inr st'"
    unfolding element by (auto simp: bind_Inr_iff)
  from Cons.prems(2) have src: "element_source (source, name) \<noteq> Identifier a"
    and others: "Identifier a \<notin> element_source ` set rest"
    unfolding element by auto
  have "map_of names a = map_of (exportedNames st) a"
    using add src by (cases source) (auto simp: element_source_def dest: addExport_other)
  with Cons.IH[OF rest others] show ?case by simp
qed

lemma elements_loop_alias:
  assumes "elements_loop original astOffset pos
             (before @ (Some (Identifier a), Identifier b) # after) st = Inr st'"
    and "Identifier a \<notin> element_source ` set after"
  shows "map_of (exportedNames st') a = Some (Some b)"
  using assms
proof (induction before arbitrary: st)
  case Nil
  from Nil.prems(1) obtain names where
    add: "addExport (Some (Identifier a)) (Some (Identifier b)) (exportedNames st) = Inr names"
    and rest: "elements_loop original astOffset pos after
        (st\<lparr>exportedNames := names, str := removeExport original astOffset pos (str st)\<rparr>) = Inr st'"
    by (auto simp: bind_Inr_iff)
  from elements_loop_other[OF rest Nil.prems(2)] addExport_alias[OF add] show ?case by simp
next
  case (Cons element before)
  obtain source name where element: "element = (source, name)" by (cases element)
  from Cons.prems(1) obtain st1 where
    "elements_loop original astOffset pos
       (before @ (Some (Identifier a), Identifier b) # after) st1 = Inr st'"
    unfolding element by (auto simp: bind_Inr_iff)
  then show ?case using Cons.prems(2) by (rule Cons.IH)
qed

lemma declarations_loop_other:
  "declarations_loop isExported names st = Inr st' \<Longrightarrow>
     (isExported \<longrightarrow> Identifier a \<notin> set names) \<Longrightarrow>
     map_of (exportedNames st') a = map_of (exportedNames st) a"
proof (induction names arbitrary: st)
  case Nil
  then show ?case by simp
next
  case (Cons v rest)
  from Cons.prems(1) obtain entries declared where
    add: "(if isExported then addExport (Some v) None (exportedNames st)
           else Inr (exportedNames st)) = Inr entries"
    and rest: "declarations_loop isExported rest
                 (st\<lparr>exportedNames := entries, declaredNames := declared\<rparr>) = Inr st'"
    by (auto simp: bind_Inr_iff)
  have "map_of entries a = map_of (exportedNames st) a"
    using add Cons.prems(2) by (auto split: if_splits dest: addExport_other)
  moreover have "isExported \<longrightarrow> Identifier a \<notin> set rest" using Cons.prems(2) by simp
  ultimately show ?case using Cons.IH[OF rest] by simp
qed

lemma replaceExports_statement_other:
  assumes "replaceExports_statement original astOffset s st = Inr st'"
    and "Identifier a \<notin> set (export_sources s)"
  shows "map_of (exportedNames st') a = map_of (exportedNames st) a"
proof (cases s)
  case (VariableStatement modifiers names)
  show ?thesis
  proof (cases "exportModifier modifiers")
    case None
    with assms VariableStatement show ?thesis
      by (auto simp: replaceExports_statement_def dest: declarations_loop_other[where a = a])
  next
    case (Some m)
    with assms VariableStatement show ?thesis
      by (auto simp: replaceExports_statement_def export_sources_def
          dest!: declarations_loop_other[where a = a])
  qed
next
  case (FunctionDeclaration modifiers name)
  show ?thesis
  proof (cases "exportModifier modifiers")
    case None
    with assms FunctionDeclaration show ?thesis
      by (auto simp: replaceExports_statement_def bind_Inr_iff)
  next
    case (Some m)
    show ?thesis
    proof (cases name)
      case None
      with assms FunctionDeclaration Some show ?thesis
        by (auto simp: replaceExports_statement_def bind_Inr_iff addExport_def)
    next
      case (Some n)
      with assms FunctionDeclaration \<open>exportModifier modifiers = Some m\<close> show ?thesis
        by (auto simp: replaceExports_statement_def export_sources_def bind_Inr_iff
            dest: addExport_other[where a = a])
    qed
  qed
next
  case (ExportDeclaration pos end' clause)
  with assms show ?thesis
    by (cases clause)
      (auto simp: replaceExports_statement_def export_sources_def dest: elements_loop_other)
qed (use assms in \<open>auto simp: replaceExports_statement_def\<close>)

lemma replaceExports_loop_other:
  "replaceExports_loop original astOffset statements st = Inr st' \<Longrightarrow>
     \<forall>s\<in>set statements. Identifier a \<notin> set (export_sources s) \<Longrightarrow>
     map_of (exportedNames st') a = map_of (exportedNames st) a"
proof (induction statements arbitrary: st)
  case Nil
  then show ?case by simp
next
  case (Cons s rest)
  from Cons.prems(1) obtain st1 where
    step: "replaceExports_statement original astOffset s st = Inr st1"
    and rest: "replaceExports_loop original astOffset rest st1 = Inr st'"
    by (auto simp: bind_Inr_iff)
  from Cons.prems(2) have s: "Identifier a \<notin> set (export_sources s)"
    and others: "\<forall>s\<in>set rest. Identifier a \<notin> set (export_sources s)" by simp_all
  from replaceExports_statement_other[OF step s] Cons.IH[OF rest others] show ?case by simp
qed

lemma replaceExports_loop_append:
  "replaceExports_loop original astOffset (xs @ ys) st =
     bind (replaceExports_loop original astOffset xs st) (replaceExports_loop original astOffset ys)"
proof (induction xs arbitrary: st)
  case Nil
  then show ?case by simp
next
  case (Cons x xs)
  then show ?case
    by (cases "replaceExports_statement original astOffset x st") simp_all
qed

lemma replaceExports_alias:
  assumes ok: "replaceExports original edits
                 (before @ ExportDeclaration pos end' (Some (es1 @ (Some (Identifier a), Identifier b) # es2))
                    # after) astOffset = Inr st"
    and es2: "Identifier a \<notin> element_source ` set es2"
    and after: "\<forall>s\<in>set after. Identifier a \<notin> set (export_sources s)"
  shows "map_of (exportedNames st) a = Some (Some b)"
proof -
  let ?st0 = "\<lparr>str = edits, exportedNames = [], declaredNames = []\<rparr>"
  from ok obtain st1 st2 where
    "replaceExports_loop original astOffset before ?st0 = Inr st1"
    and clause: "elements_loop original astOffset pos
                   (es1 @ (Some (Identifier a), Identifier b) # es2) st1 = Inr st2"
    and rest: "replaceExports_loop original astOffset after st2 = Inr st"
    by (auto simp: replaceExports_def replaceExports_loop_append bind_Inr_iff
        replaceExports_statement_def)
  from elements_loop_alias[OF clause es2] replaceExports_loop_other[OF rest after]
  show ?thesis by simp
qed

lemma returnElements_alias:
  assumes "map_of entries a = Some (Some b)" and "b \<noteq> []"
  shows "b @ '': '' @ a \<in> set (returnElements entries)"
proof -
  from assms(1) have "(a, Some b) \<in> set entries" by (rule map_of_SomeD)
  then have "(case (a, Some b) of (key, value) \<Rightarrow>
               case value of None \<Rightarrow> key | Some v \<Rightarrow> if v = [] then key else v @ '': '' @ key)
             \<in> set (returnElements entries)"
    unfolding returnElements_def set_map by (rule imageI)
  with assms(2) show ?thesis by simp
qed

text \<open>
  What an export clause does to the text: for each of its elements one removal of six
  characters, the length of \<^verbatim>\<open>export\<close>, at the first place where that word occurs from
  the start of the statement on. The braces and the elements stay in the text, and a
  clause without elements removes nothing.
\<close>

lemma elements_loop_edits:
  "elements_loop original astOffset pos elements st = Inr st' \<Longrightarrow>
     str st' = str st @ replicate (length elements)
       (Remove (str_indexOf original ''export'' (pos + astOffset))
               (str_indexOf original ''export'' (pos + astOffset) + 6))"
proof (induction elements arbitrary: st)
  case Nil
  then show ?case by simp
next
  case (Cons element rest)
  obtain source name where element: "element = (source, name)" by (cases element)
  from Cons.prems obtain names where
    rest: "elements_loop original astOffset pos rest
        (st\<lparr>exportedNames := names, str := removeExport original astOffset pos (str st)\<rparr>) = Inr st'"
    unfolding element by (auto simp: bind_Inr_iff)
  from Cons.IH[OF rest] show ?case
    by (simp add: removeExport_def Let_def replicate_append_same)
qed

lemma processImports_keeps: "x \<in> set edits \<Longrightarrow> x \<in> set (processImports edits statements astOffset target)"
  by (induction statements arbitrary: edits) (auto split: statement.splits)

lemma processScriptTag_Inr:
  assumes "findScriptTag children = Some script"
    and "processScriptTag c htmlx edits children slots target = Inr result"
  shows "\<exists>edits' st.
           replaceExports htmlx edits'
             (createSourceFile c (str_substring htmlx (content_start script) (content_end script)))
             (content_start script) = Inr st
           \<and> Append (returnString (exportedNames st) slots) \<in> set result"
proof -
  let ?tsAst = "createSourceFile c (str_substring htmlx (content_start script) (content_end script))"
  from assms obtain edits' st where
    scan: "replaceExports htmlx edits' ?tsAst (content_start script) = Inr st"
    and result: "result = processImports
        (declareImplictReactiveVariables (declaredNames st) (str st) ?tsAst (content_start script)
         @ [Append (returnString (exportedNames st) slots)])
        ?tsAst (content_start script) (node_start script + 1)"
    unfolding processScriptTag_def Let_def by (auto simp: bind_Inr_iff)
  have "Append (returnString (exportedNames st) slots) \<in> set result"
    unfolding result by (rule processImports_keeps) simp
  with scan show ?thesis by blast
qed

text \<open>
  Claim C8 says that for every script with a statement \<^verbatim>\<open>export { a as b }\<close> the props
  object of the return statement contains \<^verbatim>\<open>b: a\<close>. The map \<^verbatim>\<open>exportedNames\<close> is keyed by
  the source name, so in \<^verbatim>\<open>export { a as b }; export { a as c }\<close> the second statement
  replaces the entry of the first and the props object is \<^verbatim>\<open>{c: a}\<close>.
\<close>

theorem processScriptTag_export_alias_counterexample:
  "svelte2tsx (script_only two_aliases) ''<script>export { a as b }; export { a as c }</script>'' =
     Inr [Overwrite 0 1 ''</>;'', Overwrite 1 8 ''function render() {\<newline>'',
          Overwrite 44 53 '';\<newline><>'', Remove 8 14, Remove 27 33,
          Append ''\<newline>return { props: {c: a}, slots: {} }}'',
          Append ''\<newline>\<newline>export default class {\<newline>    $$prop_def = __sveltets_partial(render().props)\<newline>    $$slot_def = render().slots\<newline>}'']
   \<and> map_sum id (returnElements \<circ> exportedNames)
        (replaceExports ''<script>export { a as b }; export { a as c }</script>'' [] two_aliases 8)
       = Inr [''c: a'']
   \<and> ''b: a'' \<notin> set [''c: a'']"
  by code_simp

text \<open>
  Claim C8, amended. For every component script containing a top-level export-clause
  statement with an element \<^verbatim>\<open>a as b\<close> of identifiers (\<open>b\<close> not the empty name), whose
  transformation does not fail and in which no later element and no later statement
  exports the source identifier \<open>a\<close> again, the props object literal of the synthesized
  return statement contains the entry \<^verbatim>\<open>b: a\<close>.
\<close>

theorem processScriptTag_export_alias:
  assumes "findScriptTag children = Some script"
    and "createSourceFile c (str_substring htmlx (content_start script) (content_end script)) =
           before @ ExportDeclaration pos end' (Some (es1 @ (Some (Identifier a), Identifier b) # es2))
             # after"
    and "Identifier a \<notin> element_source ` set es2"
    and "\<forall>s\<in>set after. Identifier a \<notin> set (export_sources s)"
    and "b \<noteq> []"
    and "processScriptTag c htmlx edits children slots target = Inr result"
  shows "\<exists>entries. Append (returnString entries slots) \<in> set result
           \<and> b @ '': '' @ a \<in> set (returnElements entries)"
proof -
  from processScriptTag_Inr[OF assms(1) assms(6)] obtain edits' st where
    scan: "replaceExports htmlx edits'
             (before @ ExportDeclaration pos end' (Some (es1 @ (Some (Identifier a), Identifier b) # es2))
                # after) (content_start script) = Inr st"
    and app: "Append (returnString (exportedNames st) slots) \<in> set result"
    unfolding assms(2) by blast
  from replaceExports_alias[OF scan assms(3) assms(4)]
  have "map_of (exportedNames st) a = Some (Some b)" .
  then have "b @ '': '' @ a \<in> set (returnElements (exportedNames st))"
    using assms(5) by (rule returnElements_alias)
  with app show ?thesis by blast
qed

lemma one_alias_result:
  "processScriptTag (script_only one_alias) ''<script>export { a as b }</script>'' []
     (parseHtmlx (script_only one_alias) ''<script>export { a as b }</script>'') [] 0 =
   Inr [Overwrite 0 1 ''</>;'', Overwrite 1 8 ''function render() {\<newline>'',
        Overwrite 25 34 '';\<newline><>'', Remove 8 14,
        Append ''\<newline>return { props: {b: a}, slots: {} }}'']"
  by code_simp

theorem processScriptTag_export_alias_witness:
  "processScriptTag (script_only one_alias) ''<script>export { a as b }</script>'' []
     (parseHtmlx (script_only one_alias) ''<script>export { a as b }</script>'') [] 0 =
     Inr [Overwrite 0 1 ''</>;'', Overwrite 1 8 ''function render() {\<newline>'',
          Overwrite 25 34 '';\<newline><>'', Remove 8 14,
          Append ''\<newline>return { props: {b: a}, slots: {} }}'']
   \<and> (\<exists>entries. returnString entries [] = ''\<newline>return { props: {b: a}, slots: {} }}''
         \<and> ''b: a'' \<in> set (returnElements entries))"
proof -
  let ?svelte = "''<script>export { a as b }</script>''"
  let ?c = "script_only one_alias"
  let ?script = "\<lparr>node_type = ''Script'', node_start = 0, node_end = 34,
          node_name = [], node_attributes = Some [],
          content_start = 8, content_end = 25\<rparr>"
  let ?result = "[Overwrite 0 1 ''</>;'', Overwrite 1 8 ''function render() {\<newline>'',
          Overwrite 25 34 '';\<newline><>'', Remove 8 14,
          Append ''\<newline>return { props: {b: a}, slots: {} }}'']"
  have f: "findScriptTag (parseHtmlx ?c ?svelte) = Some ?script" by code_simp
  have p: "createSourceFile ?c (str_substring ?svelte (content_start ?script) (content_end ?script)) =
      [] @ ExportDeclaration 0 17 (Some ([] @ (Some (Identifier ''a''), Identifier ''b'') # [])) # []"
    by (simp add: script_only_def one_alias_def)
  have e: "Identifier ''a'' \<notin> element_source ` set []" by simp
  have a: "\<forall>s\<in>set []. Identifier ''a'' \<notin> set (export_sources s)" by simp
  have b: "''b'' \<noteq> []" by simp
  from processScriptTag_export_alias[OF f p e a b one_alias_result]
  obtain entries where "Append (returnString entries []) \<in> set ?result"
    and el: "''b'' @ '': '' @ ''a'' \<in> set (returnElements entries)" by blast
  then have "returnString entries [] = ''\<newline>return { props: {b: a}, slots: {} }}''"
    by simp
  with el have "\<exists>entries. returnString entries [] = ''\<newline>return { props: {b: a}, slots: {} }}''
         \<and> ''b: a'' \<in> set (returnElements entries)" by auto
  with one_alias_result show ?thesis by blast
qed

subsection \<open>Reactive declarations\<close>

text \<open>
  The statements are handled one after the other, and a reactive assignment to \<open>x\<close> gets
  its declaration exactly when \<open>x\<close> is not among the declared names.
\<close>

lemma declareImplictReactiveVariables_append:
  "declareImplictReactiveVariables declared edits (xs @ ys) astOffset =
     declareImplictReactiveVariables declared
       (declareImplictReactiveVariables declared edits xs astOffset) ys astOffset"
  by (induction xs arbitrary: edits) simp_all

lemma declareImplictReactiveVariables_reactive:
  "x \<noteq> [] \<Longrightarrow>
   declareImplictReactiveVariables declared edits
     [LabeledStatement pos ''$''
        (Some (ExpressionStatement (Some (BinaryExpression (IdentifierExpression x) EqualsToken))))]
     astOffset =
   (if x \<in> set declared then edits
    else edits @ [PrependRight (pos + astOffset + 1) ('';let '' @ x @ ''; '')])"
  by simp

text \<open>
  Claim C9 says that the declaration is inserted immediately before the statement. The
  edit is made at \<^verbatim>\<open>ls.pos + astOffset + 1\<close>, one character after the start of the node.
  In \<^verbatim>\<open><script>$: x = 1</script>\<close> the statement starts at offset 8 with no space or
  line break before it, and the declaration is placed at offset 9: after the \<^verbatim>\<open>$\<close> and
  before the colon, inside the statement.
\<close>

theorem declareImplictReactiveVariables_inside_statement:
  "svelte2tsx (script_only reactive_x) ''<script>$: x = 1</script>'' =
     Inr [Overwrite 0 1 ''</>;'', Overwrite 1 8 ''function render() {\<newline>'',
          Overwrite 16 25 '';\<newline><>'', PrependRight 9 '';let x; '',
          Append ''\<newline>return { props: {}, slots: {} }}'',
          Append ''\<newline>\<newline>export default class {\<newline>    $$prop_def = __sveltets_partial(render().props)\<newline>    $$slot_def = render().slots\<newline>}'']
   \<and> str_substring ''<script>$: x = 1</script>'' 8 9 = ''$''
   \<and> str_substring ''<script>$: x = 1</script>'' 9 16 = '': x = 1''"
  by code_simp

subsection \<open>Unsupported exports abort the transformation\<close>

lemma bind_Inl: "m = Inl e \<Longrightarrow> bind m f = Inl e"
  by simp

lemma bind_fails: "(\<And>x. \<exists>e. f x = Inl e) \<Longrightarrow> \<exists>e. bind m f = Inl e"
  by (cases m) auto

lemma addExport_BindingPattern:
  "\<exists>e. addExport (Some BindingPattern) target entries = Inl e"
  by (simp add: addExport_def)

lemma addExport_target_BindingPattern:
  "\<exists>e. addExport name (Some BindingPattern) entries = Inl e"
  by (auto simp: addExport_def split: option.splits binding_name.splits)

lemma declarations_loop_unsupported:
  "BindingPattern \<in> set names \<Longrightarrow> \<exists>e. declarations_loop True names st = Inl e"
proof (induction names arbitrary: st)
  case Nil
  then show ?case by simp
next
  case (Cons v rest)
  show ?case
  proof (cases v)
    case (Identifier ident)
    with Cons.prems have "BindingPattern \<in> set rest" by simp
    then have "\<And>st. \<exists>e. declarations_loop True rest st = Inl e" by (rule Cons.IH)
    then show ?thesis
      unfolding Identifier by (simp add: addExport_def addDeclaredName_def)
  next
    case BindingPattern
    then show ?thesis by (simp add: addExport_def)
  qed
qed

lemma elements_loop_unsupported:
  "list_ex (\<lambda>(source, name). source = Some BindingPattern \<or> name = BindingPattern) elements \<Longrightarrow>
     \<exists>e. elements_loop original astOffset pos elements st = Inl e"
proof (induction elements arbitrary: st)
  case Nil
  then show ?case by simp
next
  case (Cons element rest)
  obtain source name where element: "element = (source, name)" by (cases element)
  show ?case
  proof (cases "source = Some BindingPattern \<or> name = BindingPattern")
    case True
    then have "\<exists>e. (case source of
             Some s \<Rightarrow> addExport (Some s) (Some name) (exportedNames st)
           | None \<Rightarrow> addExport (Some name) None (exportedNames st)) = Inl e"
      by (cases source)
        (auto simp: addExport_def split: binding_name.splits)
    then show ?thesis unfolding element by auto
  next
    case False
    with Cons.prems have
      "list_ex (\<lambda>(source, name). source = Some BindingPattern \<or> name = BindingPattern) rest"
      unfolding element by simp
    then have "\<And>st. \<exists>e. elements_loop original astOffset pos rest st = Inl e" by (rule Cons.IH)
    then show ?thesis unfolding element by (simp add: bind_fails)
  qed
qed

lemma replaceExports_statement_unsupported:
  assumes "unsupported_export s"
  shows "\<exists>e. replaceExports_statement original astOffset s st = Inl e"
proof (cases s)
  case (VariableStatement modifiers names)
  with assms show ?thesis
    by (auto simp: unsupported_export_def replaceExports_statement_def
        intro: declarations_loop_unsupported)
next
  case (FunctionDeclaration modifiers name)
  with assms show ?thesis
    by (auto simp: unsupported_export_def replaceExports_statement_def addExport_def)
next
  case (ExportDeclaration pos end' clause)
  with assms show ?thesis
    by (cases clause)
      (auto simp: unsupported_export_def replaceExports_statement_def
        intro: elements_loop_unsupported)
qed (use assms in \<open>auto simp: unsupported_export_def\<close>)

lemma replaceExports_loop_unsupported:
  "\<exists>s\<in>set statements. unsupported_export s \<Longrightarrow>
     \<exists>e. replaceExports_loop original astOffset statements st = Inl e"
proof (induction statements arbitrary: st)
  case Nil
  then show ?case by simp
next
  case (Cons s rest)
  show ?case
  proof (cases "replaceExports_statement original astOffset s st")
    case (Inl e)
    then show ?thesis by simp
  next
    case (Inr st1)
    with replaceExports_statement_unsupported[of s original astOffset st]
    have "\<not> unsupported_export s" by auto
    with Cons.prems have "\<exists>s\<in>set rest. unsupported_export s" by simp
    then have "\<exists>e. replaceExports_loop original astOffset rest st1 = Inl e" by (rule Cons.IH)
    with Inr show ?thesis by simp
  qed
qed

lemma processScriptTag_unsupported:
  assumes "findScriptTag children = Some script"
    and "\<exists>s\<in>set (createSourceFile c
                     (str_substring htmlx (content_start script) (content_end script))).
           unsupported_export s"
  shows "\<exists>e. processScriptTag c htmlx edits children slots target = Inl e"
proof -
  have "\<And>edits'. \<exists>e. replaceExports htmlx edits'
          (createSourceFile c (str_substring htmlx (content_start script) (content_end script)))
          (content_start script) = Inl e"
    unfolding replaceExports_def using assms(2) by (rule replaceExports_loop_unsupported)
  then show ?thesis
    unfolding processScriptTag_def Let_def assms(1) option.case
    by (metis bind.simps(1))
qed

lemma svelte2tsx_unsupported:
  assumes "findScriptTag (parseHtmlx c svelte) = Some script"
    and "\<exists>s\<in>set (createSourceFile c
                     (str_substring svelte (content_start script) (content_end script))).
           unsupported_export s"
  shows "\<exists>e. svelte2tsx c svelte = Inl e"
proof -
  obtain jsx visited where conv: "convertHtmlxToJsx c svelte (parseHtmlx c svelte) = (jsx, visited)"
    by (cases "convertHtmlxToJsx c svelte (parseHtmlx c svelte)")
  have "\<And>edits slots target. \<exists>e.
          bind (processScriptTag c svelte edits (parseHtmlx c svelte) slots target) f = Inl e" for f :: "edit list \<Rightarrow> error + edit list"
    using processScriptTag_unsupported[OF assms] by (metis bind.simps(1))
  then show ?thesis
    unfolding svelte2tsx_def Let_def conv prod.case
    by (cases "onHtmlxWalk svelte visited (False, [])") (auto split: prod.splits)
qed

lemma processScriptTag_no_script:
  "findScriptTag children = None \<Longrightarrow>
     processScriptTag c htmlx edits children slots target =
       Inr (edits @ [PrependRight target ''</>;function render() {\<newline><>'',
                     Append ('';\<newline>return { props: {}, slots: '' @ slotsAsString slots @ '' }}'')])"
  by (simp add: processScriptTag_def)

lemma svelte2tsx_no_script:
  assumes "findScriptTag (parseHtmlx c svelte) = None"
    and "onHtmlxWalk svelte (snd (convertHtmlxToJsx c svelte (parseHtmlx c svelte))) (False, []) = Inr w"
  shows "\<exists>edits. svelte2tsx c svelte = Inr edits"
proof -
  obtain jsx visited where conv: "convertHtmlxToJsx c svelte (parseHtmlx c svelte) = (jsx, visited)"
    by (cases "convertHtmlxToJsx c svelte (parseHtmlx c svelte)")
  obtain uses_props slots where w: "w = (uses_props, slots)" by (cases w)
  from assms(2) have walk: "onHtmlxWalk svelte visited (False, []) = Inr (uses_props, slots)"
    unfolding conv w by simp
  show ?thesis
    unfolding svelte2tsx_def Let_def conv prod.case walk bind.simps
      processScriptTag_no_script[OF assms(1)]
    by simp
qed

lemma addTypeToVariable_typed:
  assumes "\<forall>e. exports name = Some e \<longrightarrow> typed e"
  shows "addTypeToVariable exports surround addedCode name type = addedCode"
proof (cases "exports name")
  case None
  then show ?thesis by (simp add: addTypeToVariable_def)
next
  case (Some e)
  with assms have "typed e" by simp
  with Some show ?thesis by (cases e) (simp_all add: addTypeToVariable_def typed_def)
qed

lemma addTypeToFunction_typed:
  assumes "\<forall>e. exports name = Some e \<longrightarrow> typed e"
  shows "addTypeToFunction exports surround addedCode name type returnType = addedCode"
proof (cases "exports name")
  case None
  then show ?thesis by (simp add: addTypeToFunction_def)
next
  case (Some e)
  with assms have "typed e" by simp
  with Some show ?thesis by (cases e) (simp_all add: addTypeToFunction_def typed_def)
qed

lemma upserKitRouteFile_typed:
  assumes "isKitRouteFile ext basename" and "getSource () = Some source"
    and "\<forall>name e. findExports ext source (str_endsWith basename ''.ts'') name = Some e \<longrightarrow> typed e"
  shows "upserKitRouteFile ext basename getSource surround = Some ([], getFullText ext source)"
proof -
  let ?exports = "findExports ext source (str_endsWith basename ''.ts'')"
  have t: "\<And>name. \<forall>e. ?exports name = Some e \<longrightarrow> typed e" using assms(3) by blast
  have shape: "?exports name = None \<or> (\<exists>node. ?exports name = Some (Function node True))
      \<or> (\<exists>node. ?exports name = Some (Var node True))" for name
  proof (cases "?exports name")
    case None
    then show ?thesis by simp
  next
    case (Some e)
    with t[of name] have "typed e" by simp
    with Some show ?thesis by (cases e) (simp_all add: typed_def)
  qed
  have var: "addTypeToVariable ?exports surround addedCode name type = addedCode"
    for addedCode name type
    using t[of name] by (rule addTypeToVariable_typed)
  have fn: "addTypeToFunction ?exports surround addedCode name type returnType = addedCode"
    for addedCode name type returnType
    using t[of name] by (rule addTypeToFunction_typed)
  show ?thesis
    using assms(1,2) shape[of "''load''"] shape[of "''actions''"]
    by (auto simp: upserKitRouteFile_def Let_def var fn split: option.splits)
qed

lemma upsertKitFile_route_typed:
  assumes "isKitRouteFile ext (path_basename ext fileName)" and "getSource () = Some source"
    and "\<forall>name e. findExports ext source (str_endsWith (path_basename ext fileName) ''.ts'') name = Some e
           \<longrightarrow> typed e"
  shows "upsertKitFile ext fileName settings getSource surround = Some (getFullText ext source, [])"
proof -
  have "upserKitRouteFile ext (path_basename ext fileName) getSource surround
          = Some ([], getFullText ext source)"
    using assms by (rule upserKitRouteFile_typed[where getSource = getSource])
  then show ?thesis
    by (simp add: upsertKitFile_def Let_def generate_def str_slice_from_def str_slice_def)
qed

text \<open>
  Claim C10. For every component script in which an export statement's binding name or
  rename target is not a plain identifier, the transpilation of the whole file fails and
  produces no output (the result is \<open>Inl\<close>, which carries no edits); the not-applicable
  conditions (no instance script; a file that matches no pattern or has no source) and the
  already-typed condition (every export of a route file carries a type definition) end
  with a result: the empty function body, ``no match'', and the original text with an
  empty ledger.
\<close>

theorem svelte2tsx_abort:
  "(findScriptTag (parseHtmlx c svelte) = Some script
      \<and> (\<exists>s\<in>set (createSourceFile c
                      (str_substring svelte (content_start script) (content_end script))).
            unsupported_export s)
     \<longrightarrow> (\<exists>e. svelte2tsx c svelte = Inl e))
   \<and> (findScriptTag (parseHtmlx c svelte) = None
      \<and> onHtmlxWalk svelte (snd (convertHtmlxToJsx c svelte (parseHtmlx c svelte))) (False, []) = Inr w
     \<longrightarrow> (\<exists>edits. svelte2tsx c svelte = Inr edits))
   \<and> (\<not> isKitFile ext fileName settings \<or> getSource () = None
     \<longrightarrow> upsertKitFile ext fileName settings getSource surround = None)
   \<and> (isKitRouteFile ext (path_basename ext fileName) \<and> getSource () = Some source
      \<and> (\<forall>name e. findExports ext source (str_endsWith (path_basename ext fileName) ''.ts'') name = Some e
             \<longrightarrow> typed e)
     \<longrightarrow> upsertKitFile ext fileName settings getSource surround = Some (getFullText ext source, []))"
proof (intro conjI impI)
  assume "findScriptTag (parseHtmlx c svelte) = Some script
      \<and> (\<exists>s\<in>set (createSourceFile c
                      (str_substring svelte (content_start script) (content_end script))).
            unsupported_export s)"
  then show "\<exists>e. svelte2tsx c svelte = Inl e"
    using svelte2tsx_unsupported[of c svelte script] by blast
next
  assume "findScriptTag (parseHtmlx c svelte) = None
      \<and> onHtmlxWalk svelte (snd (convertHtmlxToJsx c svelte (parseHtmlx c svelte))) (False, []) = Inr w"
  then show "\<exists>edits. svelte2tsx c svelte = Inr edits"
    using svelte2tsx_no_script[of c svelte w] by blast
next
  assume "\<not> isKitFile ext fileName settings \<or> getSource () = None"
  then show "upsertKitFile ext fileName settings getSource surround = None"
    by (rule upsertKitFile_skips)
next
  assume "isKitRouteFile ext (path_basename ext fileName) \<and> getSource () = Some source
      \<and> (\<forall>name e. findExports ext source (str_endsWith (path_basename ext fileName) ''.ts'') name = Some e
             \<longrightarrow> typed e)"
  then show "upsertKitFile ext fileName settings getSource surround = Some (getFullText ext source, [])"
    using upsertKitFile_route_typed[of ext fileName getSource source settings surround] by blast
qed

theorem svelte2tsx_abort_witness:
  "list_ex unsupported_export export_pattern
   \<and> (\<exists>e. svelte2tsx (script_only export_pattern) ''<script>export let {a} = o</script>'' = Inl e)
   \<and> svelte2tsx (script_only export_pattern) ''<script>export let {a} = o</script>''
       = Inl (Error ''export source kind not supported [object Object]'')
   \<and> (\<exists>edits. svelte2tsx no_script ''<p>hi</p>'' = Inr edits)
   \<and> upsertKitFile posix ''src/lib/util.ts'' defaults (\<lambda>_. Some typed_page) (\<lambda>t. t) = None
   \<and> upsertKitFile posix ''src/routes/+page.ts'' defaults (\<lambda>_. Some typed_page) (\<lambda>t. t)
       = Some (''export function load(e: E) { return 1 }'', [])"
proof -
  let ?svelte = "''<script>export let {a} = o</script>''"
  let ?c = "script_only export_pattern"
  let ?script = "\<lparr>node_type = ''Script'', node_start = 0, node_end = 35,
          node_name = [], node_attributes = Some [],
          content_start = 8, content_end = 26\<rparr>"
  have u: "list_ex unsupported_export export_pattern" by code_simp
  have f: "findScriptTag (parseHtmlx ?c ?svelte) = Some ?script" by code_simp
  have s: "\<exists>s\<in>set (createSourceFile ?c
                      (str_substring ?svelte (content_start ?script) (content_end ?script))).
            unsupported_export s"
    using u by (simp add: script_only_def list_ex_iff)
  have a: "\<exists>e. svelte2tsx ?c ?svelte = Inl e"
    by (rule svelte2tsx_abort[where c = ?c and svelte = ?svelte and script = ?script,
        THEN conjunct1, THEN mp, OF conjI[OF f s]])
  have a': "svelte2tsx ?c ?svelte = Inl (Error ''export source kind not supported [object Object]'')"
    by code_simp
  have n: "findScriptTag (parseHtmlx no_script ''<p>hi</p>'') = None" by code_simp
  have w: "onHtmlxWalk ''<p>hi</p>''
             (snd (convertHtmlxToJsx no_script ''<p>hi</p>'' (parseHtmlx no_script ''<p>hi</p>'')))
             (False, []) = Inr (False, [])"
    by code_simp
  have b: "\<exists>edits. svelte2tsx no_script ''<p>hi</p>'' = Inr edits"
    by (rule svelte2tsx_abort[where c = no_script and svelte = "''<p>hi</p>''" and w = "(False, [])",
        THEN conjunct2, THEN conjunct1, THEN mp, OF conjI[OF n w]])
  have k: "\<not> isKitFile posix ''src/lib/util.ts'' defaults" by code_simp
  have d: "upsertKitFile posix ''src/lib/util.ts'' defaults (\<lambda>_. Some typed_page) (\<lambda>t. t) = None"
    by (rule svelte2tsx_abort[where ext = posix and fileName = "''src/lib/util.ts''"
        and settings = defaults and getSource = "\<lambda>_. Some typed_page" and surround = "\<lambda>t. t",
        THEN conjunct2, THEN conjunct2, THEN conjunct1, THEN mp, OF disjI1[OF k]])
  have r: "isKitRouteFile posix (path_basename posix ''src/routes/+page.ts'')" by code_simp
  have g: "(\<lambda>_ :: unit. Some typed_page) () = Some typed_page" by simp
  have t: "\<forall>name e. findExports posix typed_page
              (str_endsWith (path_basename posix ''src/routes/+page.ts'') ''.ts'') name = Some e
             \<longrightarrow> typed e"
    by (auto simp: posix_def typed_page_def typed_def split: if_splits)
  have "upsertKitFile posix ''src/routes/+page.ts'' defaults (\<lambda>_. Some typed_page) (\<lambda>t. t)
          = Some (getFullText posix typed_page, [])"
    by (rule svelte2tsx_abort[where ext = posix and fileName = "''src/routes/+page.ts''"
        and settings = defaults and getSource = "\<lambda>_. Some typed_page" and surround = "\<lambda>t. t"
        and source = typed_page,
        THEN conjunct2, THEN conjunct2, THEN conjunct2, THEN mp, OF conjI[OF r conjI[OF g t]]])
  then have p: "upsertKitFile posix ''src/routes/+page.ts'' defaults (\<lambda>_. Some typed_page) (\<lambda>t. t)
       = Some (''export function load(e: E) { return 1 }'', [])"
    by (simp add: posix_def typed_page_def)
  from u a a' b d p show ?thesis by (intro conjI)
qed

end
